theory Spec2Isabelle
  imports Complex_Main "HOL-Library.Multiset"
begin

section \<open>Admission rate limiter (app/middleware/rate\_limit.py)\<close>

text \<open>
  \<^verbatim>\<open>RateLimiter\<close> keeps, per client id, the list of the times at which it let a
  request through. \<^verbatim>\<open>self.requests\<close> is a \<^verbatim>\<open>defaultdict(list)\<close>, hence a total
  function whose default is the empty list. \<^verbatim>\<open>time.time()\<close> is a float; it is read
  here as a real number and handed to each operation as the argument \<open>now\<close>.
\<close>

record RateLimiter =
  requests :: "string \<Rightarrow> real list"
  max_requests :: int
  window_size :: int

text \<open>The list comprehension both operations run first: keep the times inside the window.\<close>

definition in_window :: "RateLimiter \<Rightarrow> real \<Rightarrow> real list \<Rightarrow> real list" where
  "in_window rl now ts = filter (\<lambda>req_time. now - req_time < real_of_int (window_size rl)) ts"

definition is_allowed :: "RateLimiter \<Rightarrow> string \<Rightarrow> real \<Rightarrow> bool \<times> RateLimiter" where
  "is_allowed rl client_id now =
     (let client_requests = in_window rl now (requests rl client_id);
          rl1 = rl\<lparr>requests := (requests rl)(client_id := client_requests)\<rparr>
      in if int (length client_requests) < max_requests rl
         then (True, rl1\<lparr>requests := (requests rl1)(client_id := client_requests @ [now])\<rparr>)
         else (False, rl1))"

definition get_remaining_requests :: "RateLimiter \<Rightarrow> string \<Rightarrow> real \<Rightarrow> int \<times> RateLimiter" where
  "get_remaining_requests rl client_id now =
     (let client_requests = in_window rl now (requests rl client_id);
          rl1 = rl\<lparr>requests := (requests rl)(client_id := client_requests)\<rparr>
      in (max 0 (max_requests rl - int (length client_requests)), rl1))"

section \<open>Data model (app/models)\<close>

text \<open>
  Primary keys are UUIDs and tokens are their hexadecimal form; both are opaque and are
  strings here. A \<^verbatim>\<open>datetime\<close> counts whole microseconds, so it is an integer number of
  microseconds. Of each table the columns that the admission, cancellation and worker
  code reads or writes are kept; \<^verbatim>\<open>name\<close>, \<^verbatim>\<open>domain\<close> and \<^verbatim>\<open>updated_at\<close> are not.
\<close>

type_synonym uuid = string
type_synonym datetime = int

datatype QueueUserStatus = waiting | ready | expired | rejected

fun status_value :: "QueueUserStatus \<Rightarrow> string" where
  "status_value waiting = ''waiting''"
| "status_value ready = ''ready''"
| "status_value expired = ''expired''"
| "status_value rejected = ''rejected''"

record Application =
  app_id :: uuid
  callback_url :: string
  api_key :: string
  app_is_active :: bool
  app_is_deleted :: bool

record Queue =
  q_id :: uuid
  application_id :: uuid
  max_users_per_minute :: int
  priority :: int
  q_is_active :: bool
  q_is_deleted :: bool

record QueueUser =
  qu_id :: uuid
  queue_id :: uuid
  visitor_id :: string
  status :: QueueUserStatus
  token :: string
  redirect_url :: "string option"
  wait_time :: "int option"
  expires_at :: "datetime option"
  created_at :: datetime
  qu_is_deleted :: bool

record Log =
  event_type :: string
  message :: string
  details :: "string option"
  log_application_id :: "uuid option"
  log_queue_id :: "uuid option"
  log_queue_user_id :: "uuid option"

text \<open>The response schema \<^verbatim>\<open>QueueUserResponse\<close> and the JSON body of a callback.\<close>

record QueueUserResponse =
  r_id :: uuid
  r_queue_id :: uuid
  r_visitor_id :: string
  r_status :: QueueUserStatus
  r_token :: string
  r_redirect_url :: "string option"
  r_wait_time :: "int option"
  r_expires_at :: "datetime option"
  r_created_at :: datetime

record callback_data =
  cb_token :: string
  cb_visitor_id :: string
  cb_queue_id :: string
  cb_status :: string
  cb_wait_time :: "int option"
  cb_redirect_url :: "string option"

datatype error =
    HTTPException nat string
  | IntegrityError string
  | DataError string

text \<open>
  Everything the handlers and the worker read or change, in one state:
  \<^item> the four tables, each a list of rows;
  \<^item> \<open>row_order\<close>: the order in which the store hands back rows that an
    \<^verbatim>\<open>ORDER BY\<close> leaves tied. SQL does not fix that order, so it is a parameter of the
    store, applied to the matching rows before they are sorted;
  \<^item> the Prometheus counters, the gauge \<^verbatim>\<open>QUEUE_SIZE\<close> by label, and the number of
    observations of the histogram \<^verbatim>\<open>CALLBACK_DURATION\<close>;
  \<^item> \<open>clock\<close>, what \<^verbatim>\<open>datetime.utcnow()\<close> returns; in this model it moves only when
    the worker sleeps;
  \<^item> \<open>net\<close>: whether the k-th POST the worker ever makes gets a 2xx answer (anything
    else, a non-2xx status or a transport error, raises inside the \<^verbatim>\<open>try\<close>);
    \<open>posts\<close> is the POSTs made so far and \<open>sleeps\<close> the \<^verbatim>\<open>asyncio.sleep\<close> calls, in
    seconds;
  \<^item> \<open>running\<close>: the worker's flag.
\<close>

record world =
  applications :: "Application list"
  queues :: "Queue list"
  queue_users :: "QueueUser list"
  logs :: "Log list"
  row_order :: "QueueUser list \<Rightarrow> QueueUser list"
  USERS_RELEASED :: nat
  USERS_EXPIRED :: nat
  CALLBACK_SUCCESS :: nat
  CALLBACK_FAILURE :: nat
  QUEUE_SIZE :: "string \<rightharpoonup> int"
  CALLBACK_DURATION :: nat
  clock :: datetime
  net :: "nat \<Rightarrow> bool"
  posts :: "(string \<times> callback_data) list"
  sleeps :: "nat list"
  running :: bool

text \<open>
  The ORM writes a changed object back with \<^verbatim>\<open>UPDATE queue_users SET ... WHERE id = ?\<close>:
  the changed columns of the row with that primary key, and no other condition.
\<close>

definition update_queue_user :: "uuid \<Rightarrow> (QueueUser \<Rightarrow> QueueUser) \<Rightarrow> world \<Rightarrow> world" where
  "update_queue_user i f w =
     w\<lparr>queue_users := map (\<lambda>r. if qu_id r = i then f r else r) (queue_users w)\<rparr>"

section \<open>Admission, status lookup and cancellation (app/api/queue\_users.py)\<close>

definition to_response :: "QueueUser \<Rightarrow> QueueUserResponse" where
  "to_response u =
     \<lparr>r_id = qu_id u, r_queue_id = queue_id u, r_visitor_id = visitor_id u,
      r_status = status u, r_token = token u, r_redirect_url = redirect_url u,
      r_wait_time = wait_time u, r_expires_at = expires_at u, r_created_at = created_at u\<rparr>"

definition minutes :: "int \<Rightarrow> int" where
  "minutes n = n * 60 * 1000000"

text \<open>
  \<open>join_queue\<close>: the arguments are the request body (\<open>queue_id_in\<close>, \<open>visitor_id_in\<close>), the
  header \<^verbatim>\<open>app_api_key\<close> (None when absent), the query parameter \<open>mode\<close>, and the two
  values \<^verbatim>\<open>uuid.uuid4()\<close> yields during the call (\<open>new_token\<close> first, then \<open>new_id\<close>).
  The columns \<^verbatim>\<open>id\<close> and \<^verbatim>\<open>token\<close> are declared unique: an insert that repeats one
  fails at commit and stores nothing.
\<close>

definition join_queue ::
  "uuid \<Rightarrow> string \<Rightarrow> string option \<Rightarrow> string \<Rightarrow> string \<Rightarrow> uuid \<Rightarrow> world
     \<Rightarrow> (error + QueueUserResponse) \<times> world" where
  "join_queue queue_id_in visitor_id_in header mode new_token new_id w =
     (case header of
        None \<Rightarrow> (Inl (HTTPException 401 ''Missing app_api_key''), w)
      | Some key \<Rightarrow>
          if key = [] then (Inl (HTTPException 401 ''Missing app_api_key''), w)
          else
            (case find (\<lambda>a. api_key a = key \<and> \<not> app_is_deleted a) (applications w) of
               None \<Rightarrow> (Inl (HTTPException 401 ''Invalid app_api_key''), w)
             | Some app \<Rightarrow>
                 (case find (\<lambda>q. q_id q = queue_id_in \<and> application_id q = app_id app
                                   \<and> \<not> q_is_deleted q) (queues w) of
                    None \<Rightarrow> (Inl (HTTPException 404 ''Queue not found''), w)
                  | Some queue \<Rightarrow>
                      if mode = ''simulation'' then
                        (Inr \<lparr>r_id = new_id, r_queue_id = q_id queue,
                              r_visitor_id = visitor_id_in, r_status = ready,
                              r_token = new_token, r_redirect_url = None,
                              r_wait_time = Some 0,
                              r_expires_at = Some (clock w + minutes 5),
                              r_created_at = clock w\<rparr>, w)
                      else
                        (let queue_user =
                               \<lparr>qu_id = new_id, queue_id = q_id queue,
                                visitor_id = visitor_id_in, status = waiting,
                                token = new_token, redirect_url = None, wait_time = None,
                                expires_at = Some (clock w + minutes 10),
                                created_at = clock w, qu_is_deleted = False\<rparr>
                         in if \<exists>r \<in> set (queue_users w). qu_id r = new_id \<or> token r = new_token
                            then (Inl (IntegrityError ''queue_users''), w)
                            else (Inr (to_response queue_user),
                                  w\<lparr>queue_users := queue_users w @ [queue_user]\<rparr>)))))"

definition queue_status :: "string \<Rightarrow> world \<Rightarrow> error + QueueUserResponse" where
  "queue_status tok w =
     (case find (\<lambda>u. token u = tok \<and> \<not> qu_is_deleted u) (queue_users w) of
        None \<Rightarrow> Inl (HTTPException 404 ''Token not found'')
      | Some queue_user \<Rightarrow> Inr (to_response queue_user))"


text \<open>
  \<^verbatim>\<open>AuthService.authenticate_api_key\<close> (app/services/auth.py), the repository's lookup of
  an application by its key: it asks for \<^verbatim>\<open>is_active=True\<close> as well as
  \<^verbatim>\<open>is_deleted=False\<close>.
\<close>

definition authenticate_api_key :: "string \<Rightarrow> world \<Rightarrow> Application option" where
  "authenticate_api_key key w =
     find (\<lambda>a. api_key a = key \<and> app_is_active a \<and> \<not> app_is_deleted a) (applications w)"

section \<open>The worker (app/workers/queue\_worker.py)\<close>

definition sleep :: "nat \<Rightarrow> world \<Rightarrow> world" where
  "sleep seconds w = w\<lparr>sleeps := sleeps w @ [seconds], clock := clock w + int seconds * 1000000\<rparr>"

text \<open>
  The \<^verbatim>\<open>for attempt in range(retries)\<close> loop of \<open>send_callback\<close>, over the attempts still
  to make. It returns the flag \<^verbatim>\<open>success\<close>. A POST that succeeds increments
  \<^verbatim>\<open>CALLBACK_SUCCESS\<close> and leaves the loop; one that fails sleeps \<open>2 ^ attempt\<close> seconds
  unless it was the last.
\<close>

fun callback_attempts ::
  "Application \<Rightarrow> callback_data \<Rightarrow> nat \<Rightarrow> nat list \<Rightarrow> world \<Rightarrow> bool \<times> world" where
  "callback_attempts app d retries [] w = (False, w)"
| "callback_attempts app d retries (attempt # rest) w =
     (let answered = net w (length (posts w));
          w1 = w\<lparr>posts := posts w @ [(callback_url app, d)]\<rparr>
      in if answered then (True, w1\<lparr>CALLBACK_SUCCESS := CALLBACK_SUCCESS w1 + 1\<rparr>)
         else callback_attempts app d retries rest
                (if int attempt < int retries - 1 then sleep (2 ^ attempt) w1 else w1))"

text \<open>The dictionary \<^verbatim>\<open>callback_data\<close> and the \<^verbatim>\<open>Log\<close> row that \<open>send_callback\<close> builds.\<close>

definition callback_payload :: "QueueUser \<Rightarrow> Queue \<Rightarrow> callback_data" where
  "callback_payload user queue =
     \<lparr>cb_token = token user, cb_visitor_id = visitor_id user,
      cb_queue_id = q_id queue, cb_status = status_value (status user),
      cb_wait_time = wait_time user, cb_redirect_url = redirect_url user\<rparr>"

definition failure_log :: "QueueUser \<Rightarrow> Queue \<Rightarrow> Application \<Rightarrow> Log" where
  "failure_log user queue app =
     \<lparr>event_type = ''callback_failure'',
      message = ''Callback failed after 3 attempts'',
      details = Some (''User: '' @ qu_id user @ '', Queue: '' @ q_id queue
                        @ '', App: '' @ app_id app),
      log_application_id = Some (app_id app),
      log_queue_id = Some (q_id queue),
      log_queue_user_id = Some (qu_id user)\<rparr>"

definition send_callback :: "QueueUser \<Rightarrow> Queue \<Rightarrow> world \<Rightarrow> world" where
  "send_callback user queue w =
     (case find (\<lambda>a. app_id a = application_id queue) (applications w) of
        None \<Rightarrow> w
      | Some app \<Rightarrow>
          (let retries = 3;
               (success, w1) =
                  callback_attempts app (callback_payload user queue) retries [0..<retries] w;
               w2 = (if \<not> success
                     then w1\<lparr>CALLBACK_FAILURE := CALLBACK_FAILURE w1 + 1,
                             logs := logs w1 @ [failure_log user queue app]\<rparr>
                     else w1)
           in w2\<lparr>CALLBACK_DURATION := CALLBACK_DURATION w2 + 1\<rparr>))"

text \<open>
  \<^verbatim>\<open>int((datetime.utcnow() - user.created_at).total_seconds())\<close>: whole seconds, rounded
  towards zero.
\<close>

definition whole_seconds :: "int \<Rightarrow> int" where
  "whole_seconds d = (if 0 \<le> d then d div 1000000 else - ((- d) div 1000000))"

text \<open>
  \<open>release_user\<close> assigns to the object it was given and commits; nothing in it looks at
  the row's present status.
\<close>

definition release_user :: "QueueUser \<Rightarrow> Queue \<Rightarrow> world \<Rightarrow> world" where
  "release_user user queue w =
     (let wt = whole_seconds (clock w - created_at user);
          w1 = update_queue_user (qu_id user) (\<lambda>r. r\<lparr>status := ready, wait_time := Some wt\<rparr>) w
      in send_callback (user\<lparr>status := ready, wait_time := Some wt\<rparr>) queue w1)"

text \<open>The \<^verbatim>\<open>filter_by\<close> that both queries of \<open>process_queue\<close> share.\<close>

definition is_waiting_in :: "Queue \<Rightarrow> QueueUser \<Rightarrow> bool" where
  "is_waiting_in queue u \<longleftrightarrow> queue_id u = q_id queue \<and> status u = waiting \<and> \<not> qu_is_deleted u"

text \<open>
  The first query of \<open>process_queue\<close>: \<^verbatim>\<open>order_by(QueueUser.created_at)\<close>, with no second
  key, then \<^verbatim>\<open>limit(queue.max_users_per_minute)\<close>.
\<close>

definition waiting_users :: "Queue \<Rightarrow> world \<Rightarrow> QueueUser list" where
  "waiting_users queue w =
     take (nat (max_users_per_minute queue))
       (sort_key created_at (row_order w (filter (is_waiting_in queue) (queue_users w))))"

text \<open>The body of the \<^verbatim>\<open>for user in waiting_users\<close> loop.\<close>

definition release_step :: "Queue \<Rightarrow> QueueUser \<Rightarrow> world \<Rightarrow> world" where
  "release_step queue user w =
     (let w1 = release_user user queue w
      in w1\<lparr>USERS_RELEASED := USERS_RELEASED w1 + 1\<rparr>)"

text \<open>
  \<open>process_queue\<close> returns the exception it raises, if any. The one it can raise in this
  model is the store's: PostgreSQL, which the models are written for, refuses a
  negative \<^verbatim>\<open>LIMIT\<close>.
\<close>

definition process_queue :: "Queue \<Rightarrow> world \<Rightarrow> error option \<times> world" where
  "process_queue queue w =
     (if max_users_per_minute queue < 0
      then (Some (DataError ''LIMIT must not be negative''), w)
      else
        (let selected = waiting_users queue w
         in if selected = [] then (None, w)
            else
              (let total_waiting = length (filter (is_waiting_in queue) (queue_users w));
                   w1 = w\<lparr>QUEUE_SIZE := (QUEUE_SIZE w)(q_id queue \<mapsto> int total_waiting)\<rparr>
               in (None, fold (release_step queue) selected w1))))"

text \<open>The \<^verbatim>\<open>for queue in queues\<close> loop of \<open>process_queues\<close>: an exception leaves it.\<close>

fun process_each :: "Queue list \<Rightarrow> world \<Rightarrow> error option \<times> world" where
  "process_each [] w = (None, w)"
| "process_each (queue # rest) w =
     (case process_queue queue w of
        (Some e, w') \<Rightarrow> (Some e, w')
      | (None, w') \<Rightarrow> process_each rest w')"

definition process_queues :: "world \<Rightarrow> error option \<times> world" where
  "process_queues w =
     process_each (filter (\<lambda>q. q_is_active q \<and> \<not> q_is_deleted q) (queues w)) w"

definition is_overdue :: "datetime \<Rightarrow> QueueUser \<Rightarrow> bool" where
  "is_overdue now u \<longleftrightarrow>
     status u = waiting
     \<and> (case expires_at u of None \<Rightarrow> False | Some e \<Rightarrow> e < now)
     \<and> \<not> qu_is_deleted u"

text \<open>The body of the \<^verbatim>\<open>for user in expired_users\<close> loop.\<close>

definition expire_step :: "QueueUser \<Rightarrow> world \<Rightarrow> world" where
  "expire_step user w =
     (let w1 = update_queue_user (qu_id user) (\<lambda>r. r\<lparr>status := expired\<rparr>) w
      in w1\<lparr>USERS_EXPIRED := USERS_EXPIRED w1 + 1\<rparr>)"

definition cleanup_expired_tokens :: "world \<Rightarrow> world" where
  "cleanup_expired_tokens w =
     (let expired_users = filter (is_overdue (clock w)) (queue_users w)
      in fold expire_step expired_users w)"

text \<open>
  One pass of the \<^verbatim>\<open>while self.running\<close> loop of \<open>start\<close>: the \<^verbatim>\<open>try\<close> block, and the
  handler that logs and sleeps when the block raises.
\<close>

definition worker_cycle :: "world \<Rightarrow> world" where
  "worker_cycle w =
     (case process_queues w of
        (Some e, w1) \<Rightarrow> sleep 60 w1
      | (None, w1) \<Rightarrow> sleep 60 (cleanup_expired_tokens w1))"

text \<open>
  The loop itself, with fuel: \<open>None\<close> says that the loop is still going when the fuel is
  used up, \<open>Some w\<close> that it was left in state \<open>w\<close>.
\<close>

fun start_loop :: "nat \<Rightarrow> world \<Rightarrow> world option" where
  "start_loop 0 w = (if running w then None else Some w)"
| "start_loop (Suc fuel) w = (if running w then start_loop fuel (worker_cycle w) else Some w)"

definition start :: "nat \<Rightarrow> world \<Rightarrow> world option" where
  "start fuel w = start_loop fuel (w\<lparr>running := True\<rparr>)"

section \<open>Well-formed stores and counting transitions\<close>

text \<open>
  What the store guarantees by itself: \<^verbatim>\<open>queue_users.id\<close> is the primary key, so no two
  rows share it, and a query hands back the rows that match, each once, in some order.
\<close>

definition store_ok :: "world \<Rightarrow> bool" where
  "store_ok w \<longleftrightarrow>
     distinct (map qu_id (queue_users w)) \<and> (\<forall>rows. mset (row_order w rows) = mset rows)"

text \<open>
  The number of rows whose status is \<open>a\<close> in the first state and \<open>b\<close> in the second. The
  worker never adds, removes or reorders rows, so rows correspond by position.
\<close>

definition transitions :: "QueueUserStatus \<Rightarrow> QueueUserStatus \<Rightarrow> world \<Rightarrow> world \<Rightarrow> nat" where
  "transitions a b w w' =
     length (filter (\<lambda>(r, r'). status r = a \<and> status r' = b)
               (zip (queue_users w) (queue_users w')))"

text \<open>
  The same count for the participants of one queue: those that were waiting in the first
  state and are ready in the second.
\<close>

definition released_from :: "Queue \<Rightarrow> world \<Rightarrow> world \<Rightarrow> nat" where
  "released_from queue w w' =
     length (filter (\<lambda>(r, r'). queue_id r = q_id queue \<and> status r = waiting \<and> status r' = ready)
               (zip (queue_users w) (queue_users w')))"

section \<open>Sample data\<close>

text \<open>One tenant with one queue of quota 1, and a way to write down participants of it.\<close>

definition sample_app :: Application where
  "sample_app = \<lparr>app_id = ''app-1'', callback_url = ''https://shop.example/released'',
                  api_key = ''key-1'', app_is_active = True, app_is_deleted = False\<rparr>"

definition sample_queue :: Queue where
  "sample_queue = \<lparr>q_id = ''queue-1'', application_id = ''app-1'', max_users_per_minute = 1,
                    priority = 1, q_is_active = True, q_is_deleted = False\<rparr>"

definition participant :: "string \<Rightarrow> datetime \<Rightarrow> QueueUserStatus \<Rightarrow> QueueUser" where
  "participant n t st =
     \<lparr>qu_id = ''user-'' @ n, queue_id = ''queue-1'', visitor_id = ''visitor-'' @ n,
      status = st, token = ''token-'' @ n, redirect_url = None, wait_time = None,
      expires_at = Some (t + minutes 10), created_at = t, qu_is_deleted = False\<rparr>"

definition sample_world :: "QueueUser list \<Rightarrow> world" where
  "sample_world us =
     \<lparr>applications = [sample_app], queues = [sample_queue], queue_users = us, logs = [],
      row_order = (\<lambda>rows. rows),
      USERS_RELEASED = 0, USERS_EXPIRED = 0, CALLBACK_SUCCESS = 0, CALLBACK_FAILURE = 0,
      QUEUE_SIZE = Map.empty, CALLBACK_DURATION = 0,
      clock = minutes 1, net = (\<lambda>k. False), posts = [], sleeps = [], running = True\<rparr>"

text \<open>A second queue of the same tenant whose quota is negative.\<close>

definition broken_queue :: Queue where
  "broken_queue = \<lparr>q_id = ''queue-0'', application_id = ''app-1'', max_users_per_minute = - 1,
                    priority = 1, q_is_active = True, q_is_deleted = False\<rparr>"

section \<open>Properties of the rate limiter\<close>

lemma in_window_later:
  assumes "now \<le> now'"
  shows "in_window rl now' (in_window rl now ts) = in_window rl now' ts"
proof -
  have "\<And>t. now' - t < real_of_int (window_size rl) \<Longrightarrow> now - t < real_of_int (window_size rl)"
    using assms by linarith
  then show ?thesis
    unfolding in_window_def by (induction ts) auto
qed

lemma length_in_window: "length (in_window rl now ts) \<le> length ts"
  by (simp add: in_window_def)

text \<open>
  C10. A call of \<open>is_allowed\<close> leaves in the client's window the pruned list, followed by
  \<open>now\<close> exactly when the call answers True. A call that answers False therefore records
  nothing: the window does not grow, no other client's window changes, and
  \<open>get_remaining_requests\<close>, asked at the same or any later time, answers what it would
  have answered had the denied call not been made.
\<close>

theorem denied_request_not_recorded:
  assumes "is_allowed rl client_id now = (ok, rl')"
  shows "requests rl' client_id
           = in_window rl now (requests rl client_id) @ (if ok then [now] else [])
       \<and> (\<forall>c. c \<noteq> client_id \<longrightarrow> requests rl' c = requests rl c)
       \<and> max_requests rl' = max_requests rl \<and> window_size rl' = window_size rl
       \<and> (\<not> ok \<longrightarrow>
            length (requests rl' client_id) \<le> length (requests rl client_id)
          \<and> (\<forall>now'. now \<le> now' \<longrightarrow>
                fst (get_remaining_requests rl' client_id now')
                  = fst (get_remaining_requests rl client_id now')))"
proof -
  let ?p = "in_window rl now (requests rl client_id)"
  have win: "\<And>r ts. in_window rl' r ts = in_window rl r ts"
    using assms by (auto simp: is_allowed_def in_window_def Let_def split: if_splits)
  have a: "requests rl' client_id = ?p @ (if ok then [now] else [])"
    using assms by (auto simp: is_allowed_def Let_def split: if_splits)
  have b: "\<forall>c. c \<noteq> client_id \<longrightarrow> requests rl' c = requests rl c"
    using assms by (auto simp: is_allowed_def Let_def split: if_splits)
  have c: "max_requests rl' = max_requests rl \<and> window_size rl' = window_size rl"
    using assms by (auto simp: is_allowed_def Let_def split: if_splits)
  have d: "fst (get_remaining_requests rl' client_id now')
             = fst (get_remaining_requests rl client_id now')"
    if "\<not> ok" "now \<le> now'" for now'
    using that a c by (simp add: get_remaining_requests_def Let_def win in_window_later)
  have e: "length (requests rl' client_id) \<le> length (requests rl client_id)" if "\<not> ok"
    using that a by (simp add: length_in_window)
  from a b c d e show ?thesis by blast
qed

theorem denied_request_not_recorded_witness:
  "is_allowed \<lparr>requests = (\<lambda>c. [])(''ip:10.0.0.1'' := [1, 50, 55]), max_requests = 2, window_size = 60\<rparr>
       ''ip:10.0.0.1'' 62
     = (False, \<lparr>requests = (\<lambda>c. [])(''ip:10.0.0.1'' := [50, 55]), max_requests = 2, window_size = 60\<rparr>)
   \<and> fst (get_remaining_requests
        \<lparr>requests = (\<lambda>c. [])(''ip:10.0.0.1'' := [50, 55]), max_requests = 2, window_size = 60\<rparr>
        ''ip:10.0.0.1'' 70)
     = fst (get_remaining_requests
        \<lparr>requests = (\<lambda>c. [])(''ip:10.0.0.1'' := [1, 50, 55]), max_requests = 2, window_size = 60\<rparr>
        ''ip:10.0.0.1'' 70)"
proof -
  let ?rl = "\<lparr>requests = (\<lambda>c. [])(''ip:10.0.0.1'' := [1, 50, 55 :: real]),
              max_requests = 2, window_size = 60\<rparr>"
  let ?rl' = "\<lparr>requests = (\<lambda>c. [])(''ip:10.0.0.1'' := [50, 55 :: real]),
               max_requests = 2, window_size = 60\<rparr>"
  have run: "is_allowed ?rl ''ip:10.0.0.1'' 62 = (False, ?rl')"
    by (simp add: is_allowed_def in_window_def Let_def)
  have later: "(62::real) \<le> 70" by simp
  note a = denied_request_not_recorded [OF run, THEN conjunct2, THEN conjunct2, THEN conjunct2,
      THEN conjunct2, THEN mp, THEN conjunct2, THEN spec, THEN mp, OF _ later]
  from run a show ?thesis by simp
qed

section \<open>What the callback dispatcher leaves untouched\<close>

lemma callback_attempts_frame:
  "queue_users (snd (callback_attempts app d r as w)) = queue_users w
 \<and> applications (snd (callback_attempts app d r as w)) = applications w
 \<and> queues (snd (callback_attempts app d r as w)) = queues w
 \<and> logs (snd (callback_attempts app d r as w)) = logs w
 \<and> row_order (snd (callback_attempts app d r as w)) = row_order w
 \<and> USERS_RELEASED (snd (callback_attempts app d r as w)) = USERS_RELEASED w
 \<and> USERS_EXPIRED (snd (callback_attempts app d r as w)) = USERS_EXPIRED w
 \<and> CALLBACK_FAILURE (snd (callback_attempts app d r as w)) = CALLBACK_FAILURE w
 \<and> QUEUE_SIZE (snd (callback_attempts app d r as w)) = QUEUE_SIZE w
 \<and> net (snd (callback_attempts app d r as w)) = net w
 \<and> running (snd (callback_attempts app d r as w)) = running w"
  by (induction as arbitrary: w) (simp_all add: Let_def sleep_def)

lemma send_callback_frame:
  "queue_users (send_callback user queue w) = queue_users w
 \<and> applications (send_callback user queue w) = applications w
 \<and> queues (send_callback user queue w) = queues w
 \<and> row_order (send_callback user queue w) = row_order w
 \<and> USERS_RELEASED (send_callback user queue w) = USERS_RELEASED w
 \<and> USERS_EXPIRED (send_callback user queue w) = USERS_EXPIRED w
 \<and> QUEUE_SIZE (send_callback user queue w) = QUEUE_SIZE w
 \<and> net (send_callback user queue w) = net w
 \<and> running (send_callback user queue w) = running w"
  by (simp add: send_callback_def Let_def case_prod_beta callback_attempts_frame
           split: option.splits)

section \<open>The retry loop\<close>

lemma range_retries: "[0..<3] = [0, 1, 2::nat]"
  by (simp add: upt_rec)

lemma attempts_all_fail:
  assumes "\<forall>j<3. \<not> net w (length (posts w) + j)"
  shows "callback_attempts app d 3 [0..<3] w
       = (False, w\<lparr>posts := posts w @ replicate 3 (callback_url app, d),
                    sleeps := sleeps w @ [1, 2],
                    clock := clock w + 3000000\<rparr>)"
proof -
  have "\<not> net w (length (posts w))" "\<not> net w (Suc (length (posts w)))"
       "\<not> net w (Suc (Suc (length (posts w))))"
    using assms[rule_format, of 0] assms[rule_format, of 1] assms[rule_format, of 2] by simp_all
  then show ?thesis
    by (simp add: range_retries Let_def sleep_def numeral_3_eq_3)
qed

lemma attempts_success:
  assumes "k < 3" "\<forall>j<k. \<not> net w (length (posts w) + j)" "net w (length (posts w) + k)"
  shows "callback_attempts app d 3 [0..<3] w
       = (True, w\<lparr>posts := posts w @ replicate (Suc k) (callback_url app, d),
                   sleeps := sleeps w @ map (\<lambda>i. 2 ^ i) [0..<k],
                   clock := clock w + int (2 ^ k - 1) * 1000000,
                   CALLBACK_SUCCESS := CALLBACK_SUCCESS w + 1\<rparr>)"
proof -
  consider "k = 0" | "k = 1" | "k = 2" using assms(1) by linarith
  then show ?thesis
  proof cases
    case 1
    with assms(3) show ?thesis by (simp add: range_retries Let_def)
  next
    case 2
    with assms(2)[rule_format, of 0] assms(3) show ?thesis
      by (simp add: range_retries Let_def sleep_def)
  next
    case 3
    have "[0..<2] = [0, 1::nat]" by (simp add: upt_rec)
    with 3 assms(2)[rule_format, of 0] assms(2)[rule_format, of 1] assms(3) show ?thesis
      by (simp add: range_retries Let_def sleep_def numeral_2_eq_2)
  qed
qed

text \<open>
  C5. Let the queue's application exist, so that there is an endpoint to call. If the
  next three POSTs all fail, \<open>send_callback\<close> makes exactly three, sleeps 1 s and then
  2 s between them, appends one \<open>Log\<close> row naming the application, the queue and the
  participant, increments \<^verbatim>\<open>CALLBACK_FAILURE\<close> once and never writes to the participants
  (a participant released before the call stays ready). If the first POST to succeed is
  attempt \<open>k\<close> (counting from 0), it is the last one made, \<^verbatim>\<open>CALLBACK_SUCCESS\<close> is
  incremented once, and nothing is logged.
\<close>

theorem send_callback_retries:
  assumes "find (\<lambda>a. app_id a = application_id queue) (applications w) = Some app"
  shows "((\<forall>j<3. \<not> net w (length (posts w) + j)) \<longrightarrow>
            posts (send_callback user queue w)
              = posts w @ replicate 3 (callback_url app, callback_payload user queue)
          \<and> sleeps (send_callback user queue w) = sleeps w @ [1, 2]
          \<and> logs (send_callback user queue w) = logs w @ [failure_log user queue app]
          \<and> log_application_id (failure_log user queue app) = Some (app_id app)
          \<and> log_queue_id (failure_log user queue app) = Some (q_id queue)
          \<and> log_queue_user_id (failure_log user queue app) = Some (qu_id user)
          \<and> CALLBACK_FAILURE (send_callback user queue w) = CALLBACK_FAILURE w + 1
          \<and> CALLBACK_SUCCESS (send_callback user queue w) = CALLBACK_SUCCESS w
          \<and> queue_users (send_callback user queue w) = queue_users w)
       \<and> (\<forall>k<3. (\<forall>j<k. \<not> net w (length (posts w) + j)) \<and> net w (length (posts w) + k) \<longrightarrow>
            posts (send_callback user queue w)
              = posts w @ replicate (Suc k) (callback_url app, callback_payload user queue)
          \<and> sleeps (send_callback user queue w) = sleeps w @ map (\<lambda>i. 2 ^ i) [0..<k]
          \<and> logs (send_callback user queue w) = logs w
          \<and> CALLBACK_SUCCESS (send_callback user queue w) = CALLBACK_SUCCESS w + 1
          \<and> CALLBACK_FAILURE (send_callback user queue w) = CALLBACK_FAILURE w
          \<and> queue_users (send_callback user queue w) = queue_users w)"
proof (intro conjI impI allI)
  assume "\<forall>j<3. \<not> net w (length (posts w) + j)"
  note run = attempts_all_fail [OF this, of app "callback_payload user queue"]
  show "posts (send_callback user queue w)
          = posts w @ replicate 3 (callback_url app, callback_payload user queue)"
    using assms run by (simp add: send_callback_def Let_def)
  show "sleeps (send_callback user queue w) = sleeps w @ [1, 2]"
    using assms run by (simp add: send_callback_def Let_def)
  show "logs (send_callback user queue w) = logs w @ [failure_log user queue app]"
    using assms run by (simp add: send_callback_def Let_def)
  show "CALLBACK_FAILURE (send_callback user queue w) = CALLBACK_FAILURE w + 1"
    using assms run by (simp add: send_callback_def Let_def)
  show "CALLBACK_SUCCESS (send_callback user queue w) = CALLBACK_SUCCESS w"
    using assms run by (simp add: send_callback_def Let_def)
  show "queue_users (send_callback user queue w) = queue_users w"
    by (simp add: send_callback_frame)
  show "log_application_id (failure_log user queue app) = Some (app_id app)"
    "log_queue_id (failure_log user queue app) = Some (q_id queue)"
    "log_queue_user_id (failure_log user queue app) = Some (qu_id user)"
    by (simp_all add: failure_log_def)
next
  fix k
  assume "k < 3"
    and "(\<forall>j<k. \<not> net w (length (posts w) + j)) \<and> net w (length (posts w) + k)"
  then have run: "callback_attempts app (callback_payload user queue) 3 [0..<3] w
       = (True, w\<lparr>posts := posts w @ replicate (Suc k) (callback_url app, callback_payload user queue),
                   sleeps := sleeps w @ map (\<lambda>i. 2 ^ i) [0..<k],
                   clock := clock w + int (2 ^ k - 1) * 1000000,
                   CALLBACK_SUCCESS := CALLBACK_SUCCESS w + 1\<rparr>)"
    using attempts_success by blast
  show "posts (send_callback user queue w)
          = posts w @ replicate (Suc k) (callback_url app, callback_payload user queue)"
    using assms run by (simp add: send_callback_def Let_def)
  show "sleeps (send_callback user queue w) = sleeps w @ map (\<lambda>i. 2 ^ i) [0..<k]"
    using assms run by (simp add: send_callback_def Let_def)
  show "logs (send_callback user queue w) = logs w"
    using assms run by (simp add: send_callback_def Let_def)
  show "CALLBACK_SUCCESS (send_callback user queue w) = CALLBACK_SUCCESS w + 1"
    using assms run by (simp add: send_callback_def Let_def)
  show "CALLBACK_FAILURE (send_callback user queue w) = CALLBACK_FAILURE w"
    using assms run by (simp add: send_callback_def Let_def)
  show "queue_users (send_callback user queue w) = queue_users w"
    by (simp add: send_callback_frame)
qed

theorem send_callback_retries_witness:
  "length (posts (send_callback (participant ''1'' 0 ready) sample_queue
                    (sample_world [participant ''1'' 0 ready]))) = 3
 \<and> sleeps (send_callback (participant ''1'' 0 ready) sample_queue
              (sample_world [participant ''1'' 0 ready])) = [1, 2]
 \<and> CALLBACK_FAILURE (send_callback (participant ''1'' 0 ready) sample_queue
              (sample_world [participant ''1'' 0 ready])) = 1
 \<and> length (logs (send_callback (participant ''1'' 0 ready) sample_queue
              (sample_world [participant ''1'' 0 ready]))) = 1
 \<and> map status (queue_users (send_callback (participant ''1'' 0 ready) sample_queue
              (sample_world [participant ''1'' 0 ready]))) = [ready]
 \<and> length (posts (send_callback (participant ''1'' 0 ready) sample_queue
              ((sample_world [participant ''1'' 0 ready])\<lparr>net := (\<lambda>k. k = 1)\<rparr>))) = 2
 \<and> CALLBACK_SUCCESS (send_callback (participant ''1'' 0 ready) sample_queue
              ((sample_world [participant ''1'' 0 ready])\<lparr>net := (\<lambda>k. k = 1)\<rparr>)) = 1"
proof -
  let ?u = "participant ''1'' 0 ready"
  let ?w = "sample_world [?u]"
  let ?v = "?w\<lparr>net := (\<lambda>k. k = 1)\<rparr>"
  have app: "find (\<lambda>a. app_id a = application_id sample_queue) (applications ?w) = Some sample_app"
    by (simp add: sample_world_def sample_app_def sample_queue_def)
  have app': "find (\<lambda>a. app_id a = application_id sample_queue) (applications ?v) = Some sample_app"
    by (simp add: sample_world_def sample_app_def sample_queue_def)
  have fail: "\<forall>j<3. \<not> net ?w (length (posts ?w) + j)"
    by (simp add: sample_world_def)
  have ok: "(\<forall>j<1. \<not> net ?v (length (posts ?v) + j)) \<and> net ?v (length (posts ?v) + 1)"
    by (simp add: sample_world_def)
  have one: "(1::nat) < 3" by simp
  note a = send_callback_retries [OF app, of ?u, THEN conjunct1, THEN mp, OF fail]
  note b = send_callback_retries [OF app', of ?u, THEN conjunct2, THEN spec [where x = 1],
      THEN mp, OF one, THEN mp, OF ok]
  have "queue_users ?w = [?u]" "posts ?w = []" "sleeps ?w = []" "logs ?w = []"
       "CALLBACK_FAILURE ?w = 0" "posts ?v = []" "CALLBACK_SUCCESS ?v = 0"
    by (simp_all add: sample_world_def)
  moreover have "status ?u = ready" by (simp add: participant_def)
  ultimately show ?thesis using a b by simp
qed

section \<open>Rows written by a release\<close>

lemma release_user_rows:
  "queue_users (release_user user queue w)
     = map (\<lambda>r. if qu_id r = qu_id user
                 then r\<lparr>status := ready,
                        wait_time := Some (whole_seconds (clock w - created_at user))\<rparr>
                 else r) (queue_users w)"
  by (simp add: release_user_def Let_def send_callback_frame update_queue_user_def)

lemma release_user_frame:
  "row_order (release_user user queue w) = row_order w
 \<and> QUEUE_SIZE (release_user user queue w) = QUEUE_SIZE w
 \<and> USERS_RELEASED (release_user user queue w) = USERS_RELEASED w
 \<and> USERS_EXPIRED (release_user user queue w) = USERS_EXPIRED w
 \<and> queues (release_user user queue w) = queues w
 \<and> applications (release_user user queue w) = applications w
 \<and> running (release_user user queue w) = running w"
  by (simp add: release_user_def Let_def send_callback_frame update_queue_user_def)

lemma release_step_rows:
  "list_all2 (\<lambda>r r'. qu_id r' = qu_id r
                    \<and> (if qu_id r = qu_id user then status r' = ready else r' = r))
     (queue_users w) (queue_users (release_step queue user w))"
  by (simp add: release_step_def Let_def release_user_rows list_all2_conv_all_nth)

lemma release_fold_rows:
  "list_all2 (\<lambda>r r'. qu_id r' = qu_id r
                    \<and> (if qu_id r \<in> qu_id ` set sel then status r' = ready else r' = r))
     (queue_users w) (queue_users (fold (release_step queue) sel w))"
proof (induction sel arbitrary: w)
  case Nil
  show ?case by (simp add: list_all2_conv_all_nth)
next
  case (Cons u us)
  have "list_all2 (\<lambda>r r'. qu_id r' = qu_id r
                    \<and> (if qu_id r \<in> qu_id ` set (u # us) then status r' = ready else r' = r))
          (queue_users w) (queue_users (fold (release_step queue) us (release_step queue u w)))"
    by (rule list_all2_trans
          [OF _ release_step_rows [of u w queue] Cons.IH [of "release_step queue u w"]])
       (auto split: if_splits)
  then show ?case by simp
qed

lemma release_fold_frame:
  "row_order (fold (release_step queue) sel w) = row_order w
 \<and> QUEUE_SIZE (fold (release_step queue) sel w) = QUEUE_SIZE w
 \<and> USERS_RELEASED (fold (release_step queue) sel w) = USERS_RELEASED w + length sel
 \<and> USERS_EXPIRED (fold (release_step queue) sel w) = USERS_EXPIRED w
 \<and> queues (fold (release_step queue) sel w) = queues w
 \<and> applications (fold (release_step queue) sel w) = applications w
 \<and> running (fold (release_step queue) sel w) = running w"
  by (induction sel arbitrary: w) (simp_all add: release_step_def Let_def release_user_frame)

lemma count_keyed_le:
  assumes "distinct (map f xs)" "finite S"
  shows "length (filter (\<lambda>r. f r \<in> S) xs) \<le> card S"
proof -
  have d: "distinct (map f (filter (\<lambda>r. f r \<in> S) xs))"
    using assms(1) by (rule distinct_map_filter)
  have "length (filter (\<lambda>r. f r \<in> S) xs) = length (map f (filter (\<lambda>r. f r \<in> S) xs))"
    by simp
  also have "\<dots> = card (set (map f (filter (\<lambda>r. f r \<in> S) xs)))"
    using d by (simp only: distinct_card)
  also have "\<dots> \<le> card S"
    using assms(2) by (intro card_mono) auto
  finally show ?thesis .
qed

lemma changed_rows_le:
  assumes "list_all2 (\<lambda>r r'. f r \<notin> S \<longrightarrow> r' = r) xs ys"
  shows "length (filter (\<lambda>(r, r'). r' \<noteq> r) (zip xs ys)) \<le> length (filter (\<lambda>r. f r \<in> S) xs)"
  using assms by (induction rule: list_all2_induct) auto

lemma transitions_le_changed:
  assumes "a \<noteq> b"
  shows "transitions a b w w'
           \<le> length (filter (\<lambda>(r, r'). r' \<noteq> r) (zip (queue_users w) (queue_users w')))"
proof -
  have "\<And>p. (case p of (r, r') \<Rightarrow> status r = a \<and> status r' = b)
              \<Longrightarrow> (case p of (r, r') \<Rightarrow> r' \<noteq> r)"
    using assms by auto
  then have "filter (\<lambda>(r, r'). status r = a \<and> status r' = b)
                (zip (queue_users w) (queue_users w'))
           = filter (\<lambda>(r, r'). status r = a \<and> status r' = b)
                (filter (\<lambda>(r, r'). r' \<noteq> r) (zip (queue_users w) (queue_users w')))"
    by (auto intro!: filter_cong)
  then show ?thesis
    unfolding transitions_def by (metis length_filter_le)
qed

lemma process_queue_unfold:
  "process_queue queue w =
     (if max_users_per_minute queue < 0
      then (Some (DataError ''LIMIT must not be negative''), w)
      else if waiting_users queue w = [] then (None, w)
      else (None, fold (release_step queue) (waiting_users queue w)
                    (w\<lparr>QUEUE_SIZE := (QUEUE_SIZE w)(q_id queue \<mapsto>
                          int (length (filter (is_waiting_in queue) (queue_users w))))\<rparr>)))"
  by (simp add: process_queue_def Let_def)

section \<open>The selection query\<close>

lemma length_waiting_users: "length (waiting_users queue w) \<le> nat (max_users_per_minute queue)"
  by (simp add: waiting_users_def)

lemma candidates_set:
  assumes "\<forall>rows. mset (row_order w rows) = mset rows"
  shows "set (sort_key created_at (row_order w (filter (is_waiting_in queue) (queue_users w))))
           = {u \<in> set (queue_users w). is_waiting_in queue u}"
proof -
  have "set (row_order w (filter (is_waiting_in queue) (queue_users w)))
          = set (filter (is_waiting_in queue) (queue_users w))"
    using assms by (metis set_mset_mset)
  then show ?thesis by simp
qed

lemma waiting_users_subset:
  assumes "\<forall>rows. mset (row_order w rows) = mset rows"
  shows "set (waiting_users queue w) \<subseteq> {u \<in> set (queue_users w). is_waiting_in queue u}"
  unfolding waiting_users_def using candidates_set [OF assms, of queue] set_take_subset by fastforce

lemma waiting_users_distinct:
  assumes "store_ok w"
  shows "distinct (waiting_users queue w)"
proof -
  have d: "distinct (queue_users w)"
    using assms by (auto simp: store_ok_def distinct_map)
  have "mset (row_order w (filter (is_waiting_in queue) (queue_users w)))
          = mset (filter (is_waiting_in queue) (queue_users w))"
    using assms by (simp add: store_ok_def)
  then have "distinct (row_order w (filter (is_waiting_in queue) (queue_users w)))"
    using d by (metis distinct_filter mset_eq_imp_distinct_iff)
  then show ?thesis
    by (simp add: waiting_users_def)
qed

section \<open>Participants that are no longer waiting\<close>






lemma expire_fold_rows:
  "queue_users (fold expire_step us w)
     = map (\<lambda>r. if qu_id r \<in> qu_id ` set us then r\<lparr>status := expired\<rparr> else r) (queue_users w)"
  by (induction us arbitrary: w) (auto simp: expire_step_def Let_def update_queue_user_def)

lemma expire_fold_frame:
  "row_order (fold expire_step us w) = row_order w
 \<and> running (fold expire_step us w) = running w
 \<and> USERS_EXPIRED (fold expire_step us w) = USERS_EXPIRED w + length us
 \<and> clock (fold expire_step us w) = clock w"
  by (induction us arbitrary: w) (simp_all add: expire_step_def Let_def update_queue_user_def)



section \<open>Lookups, counting and the waiting rows after a release\<close>

lemma find_Some_holds: "find P xs = Some x \<Longrightarrow> P x \<and> x \<in> set xs"
  by (induction xs) (auto split: if_splits)

lemma filter_member_length:
  assumes "distinct xs" "distinct sel" "set sel \<subseteq> set xs"
  shows "length (filter (\<lambda>r. r \<in> set sel) xs) = length sel"
proof -
  have "distinct (filter (\<lambda>r. r \<in> set sel) xs)" using assms(1) by simp
  then have "length (filter (\<lambda>r. r \<in> set sel) xs) = card (set (filter (\<lambda>r. r \<in> set sel) xs))"
    by (simp only: distinct_card)
  also have "set (filter (\<lambda>r. r \<in> set sel) xs) = set sel" using assms(3) by auto
  also have "card (set sel) = length sel" using assms(2) by (rule distinct_card)
  finally show ?thesis .
qed

lemma filter_split_length:
  "length (filter P xs) = length (filter (\<lambda>r. P r \<and> \<not> Q r) xs) + length (filter (\<lambda>r. P r \<and> Q r) xs)"
  by (induction xs) auto

lemma still_waiting_rows:
  assumes "list_all2 (\<lambda>r r'. qu_id r' = qu_id r
                    \<and> (if qu_id r \<in> S then status r' = ready else r' = r)) xs ys"
  shows "length (filter (is_waiting_in queue) ys)
           = length (filter (\<lambda>r. is_waiting_in queue r \<and> \<not> qu_id r \<in> S) xs)"
  using assms by (induction rule: list_all2_induct) (auto simp: is_waiting_in_def split: if_splits)

lemma waiting_after_release:
  assumes ok: "store_ok w" and same: "queue_users w1 = queue_users w"
  shows "length (filter (is_waiting_in queue)
                   (queue_users (fold (release_step queue) (waiting_users queue w) w1)))
           + length (waiting_users queue w)
         = length (filter (is_waiting_in queue) (queue_users w))"
proof -
  let ?sel = "waiting_users queue w"
  let ?S = "qu_id ` set ?sel"
  let ?xs = "queue_users w"
  have perm: "\<forall>rows. mset (row_order w rows) = mset rows"
    and d: "distinct (map qu_id ?xs)"
    using ok by (simp_all add: store_ok_def)
  have inj: "inj_on qu_id (set ?xs)" and dx: "distinct ?xs"
    using d by (simp_all add: distinct_map)
  have sub: "set ?sel \<subseteq> {u \<in> set ?xs. is_waiting_in queue u}"
    by (rule waiting_users_subset [OF perm])
  have a: "length (filter (is_waiting_in queue) (queue_users (fold (release_step queue) ?sel w1)))
             = length (filter (\<lambda>r. is_waiting_in queue r \<and> \<not> qu_id r \<in> ?S) ?xs)"
    using still_waiting_rows [OF release_fold_rows [of ?sel w1 queue], of queue] same by simp
  have "(is_waiting_in queue r \<and> qu_id r \<in> ?S) \<longleftrightarrow> r \<in> set ?sel" if "r \<in> set ?xs" for r
  proof
    assume "is_waiting_in queue r \<and> qu_id r \<in> ?S"
    then obtain t where t: "t \<in> set ?sel" "qu_id t = qu_id r" by auto
    with sub that inj have "t = r" by (auto dest: inj_onD)
    with t show "r \<in> set ?sel" by simp
  next
    assume "r \<in> set ?sel"
    with sub show "is_waiting_in queue r \<and> qu_id r \<in> ?S" by auto
  qed
  then have "filter (\<lambda>r. is_waiting_in queue r \<and> qu_id r \<in> ?S) ?xs = filter (\<lambda>r. r \<in> set ?sel) ?xs"
    by (intro filter_cong) auto
  moreover have "length (filter (\<lambda>r. r \<in> set ?sel) ?xs) = length ?sel"
    using sub by (intro filter_member_length [OF dx waiting_users_distinct [OF ok]]) auto
  ultimately have b: "length (filter (\<lambda>r. is_waiting_in queue r \<and> qu_id r \<in> ?S) ?xs) = length ?sel"
    by simp
  show ?thesis
    using a b filter_split_length [of "is_waiting_in queue" ?xs "\<lambda>r. qu_id r \<in> ?S"] by simp
qed

section \<open>The worker flag and the loop\<close>

lemma process_queue_running: "running (snd (process_queue queue w)) = running w"
  by (simp add: process_queue_unfold release_fold_frame)

lemma process_each_running: "running (snd (process_each qs w)) = running w"
proof (induction qs arbitrary: w)
  case Nil
  show ?case by simp
next
  case (Cons q qs)
  obtain e w1 where pq: "process_queue q w = (e, w1)" by (cases "process_queue q w")
  with process_queue_running [of q w] have "running w1 = running w" by simp
  with pq Cons.IH [of w1] show ?case by (cases e) simp_all
qed

lemma worker_cycle_running: "running (worker_cycle w) = running w"
proof -
  obtain e w1 where pq: "process_queues w = (e, w1)" by (cases "process_queues w")
  with process_each_running [of "filter (\<lambda>q. q_is_active q \<and> \<not> q_is_deleted q) (queues w)" w]
  have "running w1 = running w" by (simp add: process_queues_def)
  with pq show ?thesis
    by (cases e) (simp_all add: worker_cycle_def sleep_def cleanup_expired_tokens_def Let_def expire_fold_frame)
qed

lemma start_loop_never_returns: "running w \<Longrightarrow> start_loop fuel w = None"
  by (induction fuel arbitrary: w) (simp_all add: worker_cycle_running)

lemma process_each_append:
  "process_each (before @ rest) w =
     (case process_each before w of
        (Some e, w') \<Rightarrow> (Some e, w')
      | (None, w') \<Rightarrow> process_each rest w')"
  by (induction before arbitrary: w) (auto split: prod.splits option.splits)

section \<open>Facts about the sample data\<close>

lemma release_step_frame:
  "row_order (release_step queue user w) = row_order w
 \<and> QUEUE_SIZE (release_step queue user w) = QUEUE_SIZE w
 \<and> USERS_RELEASED (release_step queue user w) = USERS_RELEASED w + 1
 \<and> USERS_EXPIRED (release_step queue user w) = USERS_EXPIRED w
 \<and> queues (release_step queue user w) = queues w
 \<and> applications (release_step queue user w) = applications w
 \<and> running (release_step queue user w) = running w"
  by (simp add: release_step_def Let_def release_user_frame)

lemma sample_queue_fields:
  "q_id sample_queue = ''queue-1''" "application_id sample_queue = ''app-1''"
  "max_users_per_minute sample_queue = 1" "q_is_active sample_queue" "\<not> q_is_deleted sample_queue"
  by (simp_all add: sample_queue_def)

lemma broken_queue_fields:
  "q_id broken_queue = ''queue-0''" "application_id broken_queue = ''app-1''"
  "max_users_per_minute broken_queue = - 1" "q_is_active broken_queue" "\<not> q_is_deleted broken_queue"
  by (simp_all add: broken_queue_def)

lemma sample_world_fields:
  "applications (sample_world us) = [sample_app]" "queues (sample_world us) = [sample_queue]"
  "queue_users (sample_world us) = us" "logs (sample_world us) = []"
  "row_order (sample_world us) rows = rows"
  "USERS_RELEASED (sample_world us) = 0" "USERS_EXPIRED (sample_world us) = 0"
  "CALLBACK_SUCCESS (sample_world us) = 0" "CALLBACK_FAILURE (sample_world us) = 0"
  "QUEUE_SIZE (sample_world us) = Map.empty" "clock (sample_world us) = 60000000"
  "net (sample_world us) k = False" "posts (sample_world us) = []" "sleeps (sample_world us) = []"
  "running (sample_world us)"
  by (simp_all add: sample_world_def minutes_def)

lemma participant_fields:
  "qu_id (participant n t st) = ''user-'' @ n" "queue_id (participant n t st) = ''queue-1''"
  "status (participant n t st) = st" "token (participant n t st) = ''token-'' @ n"
  "created_at (participant n t st) = t" "expires_at (participant n t st) = Some (t + 600000000)"
  "\<not> qu_is_deleted (participant n t st)"
  by (simp_all add: participant_def minutes_def)

lemma participant_status_update:
  "(participant n t st)\<lparr>status := st'\<rparr> = participant n t st'"
  by (simp add: participant_def)

lemma sel1: "waiting_users sample_queue (sample_world [participant ''1'' 0 waiting]) = [participant ''1'' 0 waiting]"
  by (simp add: waiting_users_def sample_world_fields sample_queue_fields participant_fields is_waiting_in_def)

lemma sample_app_fields:
  "app_id sample_app = ''app-1''" "api_key sample_app = ''key-1''"
  "callback_url sample_app = ''https://shop.example/released''"
  "\<not> app_is_deleted sample_app"
  by (simp_all add: sample_app_def)

lemma sample_queue_rest:
  "waiting_users sample_queue (sample_world (participant ''1'' 0 waiting # participant ''2'' t waiting # []))
     = [participant ''1'' 0 waiting]" if "0 \<le> t"
  using that
  by (simp add: waiting_users_def sample_world_fields sample_queue_fields participant_fields
        is_waiting_in_def)

lemma sample_store_ok:
  "store_ok (sample_world [participant ''1'' 0 st, participant ''2'' t st'])"
  by (simp add: store_ok_def sample_world_fields participant_fields)

lemma broken_cycle:
  "process_queues ((sample_world us)\<lparr>queues := [broken_queue, sample_queue]\<rparr>)
     = (Some (DataError ''LIMIT must not be negative''),
        (sample_world us)\<lparr>queues := [broken_queue, sample_queue]\<rparr>)"
  by (simp add: process_queues_def broken_queue_fields sample_queue_fields process_queue_unfold)

section \<open>Releases of one queue over a whole cycle\<close>

lemma map_same_key: "(\<And>x. f (g x) = f x) \<Longrightarrow> map f (map g xs) = map f xs"
  by simp

lemma release_step_queue_id:
  "map queue_id (queue_users (release_step queue user w)) = map queue_id (queue_users w)"
  unfolding release_step_def Let_def
  by (simp add: release_user_rows del: map_map) (rule map_same_key, simp)

lemma release_fold_queue_id:
  "map queue_id (queue_users (fold (release_step queue) sel w)) = map queue_id (queue_users w)"
  by (induction sel arbitrary: w) (simp_all add: release_step_queue_id)

lemma process_queue_step:
  assumes "store_ok w"
  shows "list_all2 (\<lambda>r r'. qu_id r' = qu_id r \<and> queue_id r' = queue_id r
                      \<and> (r' \<noteq> r \<longrightarrow> queue_id r = q_id p \<and> status r = waiting \<and> status r' = ready))
           (queue_users w) (queue_users (snd (process_queue p w)))"
proof -
  let ?sel = "waiting_users p w"
  let ?w1 = "w\<lparr>QUEUE_SIZE := (QUEUE_SIZE w)(q_id p \<mapsto>
                          int (length (filter (is_waiting_in p) (queue_users w))))\<rparr>"
  let ?xs = "queue_users w"
  let ?ys = "queue_users (fold (release_step p) ?sel ?w1)"
  have perm: "\<forall>rows. mset (row_order w rows) = mset rows"
    and d: "distinct (map qu_id ?xs)"
    using assms by (simp_all add: store_ok_def)
  have inj: "inj_on qu_id (set ?xs)" using d by (simp add: distinct_map)
  have sub: "set ?sel \<subseteq> {u \<in> set ?xs. is_waiting_in p u}"
    by (rule waiting_users_subset [OF perm])
  have rel: "list_all2 (\<lambda>r r'. qu_id r' = qu_id r
                    \<and> (if qu_id r \<in> qu_id ` set ?sel then status r' = ready else r' = r)) ?xs ?ys"
    using release_fold_rows [of ?sel ?w1 p] by simp
  have qid: "map queue_id ?ys = map queue_id ?xs"
    using release_fold_queue_id [of p ?sel ?w1] by simp
  have len: "length ?ys = length ?xs" using rel by (rule list_all2_lengthD [symmetric])
  have sel_wait: "queue_id r = q_id p \<and> status r = waiting"
    if "r \<in> set ?xs" "qu_id r \<in> qu_id ` set ?sel" for r
  proof -
    from that(2) obtain t where t: "t \<in> set ?sel" "qu_id t = qu_id r" by auto
    with sub that(1) inj have "t = r" by (auto dest: inj_onD)
    with t sub show ?thesis by (auto simp: is_waiting_in_def)
  qed
  have main: "list_all2 (\<lambda>r r'. qu_id r' = qu_id r \<and> queue_id r' = queue_id r
                      \<and> (r' \<noteq> r \<longrightarrow> queue_id r = q_id p \<and> status r = waiting \<and> status r' = ready))
           ?xs ?ys"
    unfolding list_all2_conv_all_nth
  proof (intro conjI allI impI)
    show "length ?xs = length ?ys" using len by simp
  next
    fix i assume i: "i < length ?xs"
    from rel i have ri: "qu_id (?ys ! i) = qu_id (?xs ! i)"
      and ci: "if qu_id (?xs ! i) \<in> qu_id ` set ?sel then status (?ys ! i) = ready else ?ys ! i = ?xs ! i"
      by (auto simp: list_all2_conv_all_nth)
    show "qu_id (?ys ! i) = qu_id (?xs ! i)" by (rule ri)
    have "map queue_id ?ys ! i = map queue_id ?xs ! i" using qid by simp
    then show "queue_id (?ys ! i) = queue_id (?xs ! i)" using i len by simp
    assume ne: "?ys ! i \<noteq> ?xs ! i"
    with ci have mem: "qu_id (?xs ! i) \<in> qu_id ` set ?sel" and rd: "status (?ys ! i) = ready"
      by (auto split: if_splits)
    from sel_wait [OF nth_mem [OF i] mem] rd
    show "queue_id (?xs ! i) = q_id p" "status (?xs ! i) = waiting" "status (?ys ! i) = ready"
      by simp_all
  qed
  have refl: "list_all2 (\<lambda>r r'. qu_id r' = qu_id r \<and> queue_id r' = queue_id r
                      \<and> (r' \<noteq> r \<longrightarrow> queue_id r = q_id p \<and> status r = waiting \<and> status r' = ready))
           ?xs ?xs"
    by (simp add: list_all2_conv_all_nth)
  from main refl show ?thesis
    by (simp add: process_queue_unfold)
qed

lemma step_ids:
  "list_all2 (\<lambda>r r'. qu_id r' = qu_id r \<and> Q r r') xs ys \<Longrightarrow> map qu_id ys = map qu_id xs"
  by (induction rule: list_all2_induct) auto

lemma process_queue_store_ok:
  assumes "store_ok w"
  shows "store_ok (snd (process_queue p w))"
proof -
  have "map qu_id (queue_users (snd (process_queue p w))) = map qu_id (queue_users w)"
    using process_queue_step [OF assms, of p] by (rule step_ids)
  moreover have "row_order (snd (process_queue p w)) = row_order w"
    by (simp add: process_queue_unfold release_fold_frame)
  ultimately show ?thesis using assms by (simp add: store_ok_def)
qed

text \<open>Counting over two steps.\<close>

lemma count_two_steps:
  assumes "list_all2 (\<lambda>r r'. queue_id r' = queue_id r \<and> (r' \<noteq> r \<longrightarrow> status r' = ready)) xs ys"
    and "length zs = length ys"
  shows "length (filter (\<lambda>(r, r'). queue_id r = k \<and> status r = waiting \<and> status r' = ready) (zip xs zs))
       \<le> length (filter (\<lambda>(r, r'). queue_id r = k \<and> status r = waiting \<and> status r' = ready) (zip xs ys))
         + length (filter (\<lambda>(r, r'). queue_id r = k \<and> status r = waiting \<and> status r' = ready) (zip ys zs))"
  using assms
proof (induction arbitrary: zs rule: list_all2_induct)
  case Nil
  then show ?case by simp
next
  case (Cons x xs y ys)
  then obtain z zs' where zs: "zs = z # zs'" by (cases zs) auto
  with Cons.prems have "length zs' = length ys" by simp
  from Cons.IH [OF this] Cons.hyps(1) show ?case
    unfolding zs by auto
qed

lemma count_untouched:
  assumes "list_all2 (\<lambda>r r'. r' \<noteq> r \<longrightarrow> queue_id r = j) xs ys" "j \<noteq> k"
  shows "length (filter (\<lambda>(r, r'). queue_id r = k \<and> status r = waiting \<and> status r' = ready) (zip xs ys)) = 0"
  using assms by (induction rule: list_all2_induct) auto

lemma process_each_store_ok:
  "store_ok w \<Longrightarrow> store_ok (snd (process_each qs w))"
proof (induction qs arbitrary: w)
  case Nil
  then show ?case by simp
next
  case (Cons p qs)
  obtain e w1 where pq: "process_queue p w = (e, w1)" by (cases "process_queue p w")
  with process_queue_store_ok [OF Cons.prems, of p] have "store_ok w1" by simp
  with pq Cons.IH [of w1] show ?case by (cases e) simp_all
qed

lemma process_queue_length:
  "length (queue_users (snd (process_queue p w))) = length (queue_users w)"
proof -
  have "length (queue_users (fold (release_step p) sel w1)) = length (queue_users w1)" for sel w1
    using release_fold_rows [of sel w1 p] by (rule list_all2_lengthD [symmetric])
  then show ?thesis by (simp add: process_queue_unfold)
qed

lemma process_each_length:
  "length (queue_users (snd (process_each qs w))) = length (queue_users w)"
proof (induction qs arbitrary: w)
  case Nil
  show ?case by simp
next
  case (Cons p qs)
  obtain e w1 where pq: "process_queue p w = (e, w1)" by (cases "process_queue p w")
  with process_queue_length [of p w] have "length (queue_users w1) = length (queue_users w)" by simp
  with pq Cons.IH [of w1] show ?case by (cases e) simp_all
qed

lemma process_queue_transitions:
  assumes "distinct (map qu_id (queue_users w))" and "0 \<le> max_users_per_minute queue"
  shows "transitions waiting ready w (snd (process_queue queue w))
           \<le> nat (max_users_per_minute queue)"
proof -
  let ?sel = "waiting_users queue w"
  let ?w1 = "w\<lparr>QUEUE_SIZE := (QUEUE_SIZE w)(q_id queue \<mapsto>
                          int (length (filter (is_waiting_in queue) (queue_users w))))\<rparr>"
  let ?w' = "snd (process_queue queue w)"
  have rows: "list_all2 (\<lambda>r r'. qu_id r \<notin> qu_id ` set ?sel \<longrightarrow> r' = r)
                (queue_users w) (queue_users ?w')"
  proof (cases "?sel = []")
    case True
    then show ?thesis using assms(2) by (simp add: process_queue_unfold list_all2_conv_all_nth)
  next
    case False
    have "list_all2 (\<lambda>r r'. qu_id r \<notin> qu_id ` set ?sel \<longrightarrow> r' = r)
            (queue_users ?w1) (queue_users (fold (release_step queue) ?sel ?w1))"
      by (rule list_all2_mono [OF release_fold_rows]) (auto split: if_splits)
    with False show ?thesis using assms(2) by (simp add: process_queue_unfold)
  qed
  have "transitions waiting ready w ?w'
          \<le> length (filter (\<lambda>(r, r'). r' \<noteq> r) (zip (queue_users w) (queue_users ?w')))"
    by (rule transitions_le_changed) simp
  also have "\<dots> \<le> length (filter (\<lambda>r. qu_id r \<in> qu_id ` set ?sel) (queue_users w))"
    by (rule changed_rows_le [OF rows])
  also have "\<dots> \<le> card (qu_id ` set ?sel)"
    by (rule count_keyed_le [OF assms(1)]) simp
  also have "\<dots> \<le> length ?sel"
    by (metis card_image_le card_length le_trans List.finite_set)
  also have "\<dots> \<le> nat (max_users_per_minute queue)"
    by (rule length_waiting_users)
  finally show ?thesis .
qed

lemma released_from_le_transitions:
  "released_from queue w w' \<le> transitions waiting ready w w'"
proof -
  have "length (filter (\<lambda>(r, r'). queue_id r = k \<and> status r = waiting \<and> status r' = ready) zs)
          \<le> length (filter (\<lambda>(r, r'). status r = waiting \<and> status r' = ready) zs)" for k zs
    by (induction zs) auto
  then show ?thesis by (simp add: released_from_def transitions_def)
qed

lemma released_from_one_queue:
  assumes "store_ok w" "0 \<le> max_users_per_minute p"
  shows "released_from p w (snd (process_queue p w)) \<le> nat (max_users_per_minute p)"
proof -
  have d: "distinct (map qu_id (queue_users w))" using assms(1) by (simp add: store_ok_def)
  from released_from_le_transitions [of p w "snd (process_queue p w)"]
    process_queue_transitions [OF d assms(2)]
  show ?thesis by (rule le_trans)
qed

lemma released_from_two_steps:
  assumes "list_all2 (\<lambda>r r'. queue_id r' = queue_id r \<and> (r' \<noteq> r \<longrightarrow> status r' = ready))
             (queue_users w) (queue_users w1)"
    and "length (queue_users w2) = length (queue_users w1)"
  shows "released_from q w w2 \<le> released_from q w w1 + released_from q w1 w2"
  using count_two_steps [OF assms, of "q_id q"] by (simp only: released_from_def)

lemma released_from_untouched:
  assumes "list_all2 (\<lambda>r r'. r' \<noteq> r \<longrightarrow> queue_id r = j) (queue_users w) (queue_users w1)"
    and "j \<noteq> q_id q"
  shows "released_from q w w1 = 0"
  using count_untouched [OF assms] by (simp only: released_from_def)

lemma released_from_same: "released_from q w w = 0"
proof -
  have "length (filter (\<lambda>(r, r'). queue_id r = k \<and> status r = waiting \<and> status r' = ready)
           (zip xs xs)) = 0" for k and xs :: "QueueUser list"
    by (induction xs) auto
  then show ?thesis by (simp add: released_from_def)
qed

lemma released_from_each:
  assumes "0 \<le> max_users_per_minute q"
  shows "store_ok w \<Longrightarrow> distinct qs \<Longrightarrow> (\<And>p. p \<in> set qs \<Longrightarrow> q_id p = q_id q \<Longrightarrow> p = q)
           \<Longrightarrow> released_from q w (snd (process_each qs w))
                 \<le> (if q \<in> set qs then nat (max_users_per_minute q) else 0)"
proof (induction qs arbitrary: w)
  case Nil
  show ?case by (simp add: released_from_same)
next
  case (Cons p qs)
  define N where "N = nat (max_users_per_minute q)"
  obtain e w1 where pq: "process_queue p w = (e, w1)" by (cases "process_queue p w")
  have w1: "w1 = snd (process_queue p w)" using pq by simp
  have ok1: "store_ok w1" unfolding w1 by (rule process_queue_store_ok [OF Cons.prems(1)])
  have step: "list_all2 (\<lambda>r r'. qu_id r' = qu_id r \<and> queue_id r' = queue_id r
                      \<and> (r' \<noteq> r \<longrightarrow> queue_id r = q_id p \<and> status r = waiting \<and> status r' = ready))
           (queue_users w) (queue_users w1)"
    unfolding w1 by (rule process_queue_step [OF Cons.prems(1)])
  have dqs: "distinct qs" and pn: "p \<notin> set qs" using Cons.prems(2) by simp_all
  have only: "p' = q" if "p' \<in> set qs" "q_id p' = q_id q" for p'
    by (rule Cons.prems(3)) (simp_all add: that)
  let ?w' = "snd (process_each qs w1)"
  have rest: "released_from q w1 ?w' \<le> (if q \<in> set qs then N else 0)"
    unfolding N_def by (rule Cons.IH [OF ok1 dqs only])
  have two: "released_from q w ?w' \<le> released_from q w w1 + released_from q w1 ?w'"
  proof (rule released_from_two_steps)
    show "list_all2 (\<lambda>r r'. queue_id r' = queue_id r \<and> (r' \<noteq> r \<longrightarrow> status r' = ready))
            (queue_users w) (queue_users w1)"
      by (rule list_all2_mono [OF step]) blast
    show "length (queue_users ?w') = length (queue_users w1)"
      by (rule process_each_length)
  qed
  have result: "snd (process_each (p # qs) w) = (case e of Some err \<Rightarrow> w1 | None \<Rightarrow> ?w')"
    using pq by (cases e) simp_all
  show ?case
  proof (cases "p = q")
    case True
    have f: "released_from q w w1 \<le> N"
      unfolding N_def w1 True [symmetric]
      using released_from_one_queue [OF Cons.prems(1), of p] assms True by simp
    have "q \<notin> set qs" using pn True by simp
    with rest have r: "released_from q w1 ?w' = 0" by simp
    from two f r have "released_from q w ?w' \<le> N" by linarith
    with f have "released_from q w (snd (process_each (p # qs) w)) \<le> N"
      unfolding result by (cases e) simp_all
    moreover have "q \<in> set (p # qs)" using True by simp
    ultimately show ?thesis unfolding N_def by simp
  next
    case False
    have "q_id p \<noteq> q_id q"
    proof
      assume same: "q_id p = q_id q"
      have "p = q" by (rule Cons.prems(3)) (simp_all add: same)
      with False show False by simp
    qed
    moreover have "list_all2 (\<lambda>r r'. r' \<noteq> r \<longrightarrow> queue_id r = q_id p)
                     (queue_users w) (queue_users w1)"
      by (rule list_all2_mono [OF step]) blast
    ultimately have f: "released_from q w w1 = 0"
      by (rule released_from_untouched [rotated])
    from two f rest have "released_from q w ?w' \<le> (if q \<in> set qs then N else 0)" by linarith
    with f have "released_from q w (snd (process_each (p # qs) w)) \<le> (if q \<in> set qs then N else 0)"
      unfolding result by (cases e) simp_all
    moreover have "(q \<in> set (p # qs)) = (q \<in> set qs)" using False by auto
    ultimately show ?thesis unfolding N_def by simp
  qed
qed

lemma released_from_cycle:
  assumes "store_ok w" "distinct (map q_id (queues w))" "queue \<in> set (queues w)"
    and "0 \<le> max_users_per_minute queue"
  shows "int (released_from queue w (snd (process_queues w))) \<le> max_users_per_minute queue"
proof -
  let ?qs = "filter (\<lambda>q. q_is_active q \<and> \<not> q_is_deleted q) (queues w)"
  have inj: "inj_on q_id (set (queues w))" and dq: "distinct (queues w)"
    using assms(2) by (simp_all add: distinct_map)
  have a: "distinct ?qs" using dq by simp
  have b: "p = queue" if "p \<in> set ?qs" "q_id p = q_id queue" for p
    using inj assms(3) that by (auto dest: inj_onD)
  have "released_from queue w (snd (process_each ?qs w))
          \<le> (if queue \<in> set ?qs then nat (max_users_per_minute queue) else 0)"
    by (rule released_from_each [OF assms(4) assms(1) a b])
  also have "\<dots> \<le> nat (max_users_per_minute queue)" by simp
  finally have "released_from queue w (snd (process_queues w)) \<le> nat (max_users_per_minute queue)"
    by (simp add: process_queues_def)
  with assms(4) show ?thesis by linarith
qed

section \<open>The order in which callbacks go out\<close>

lemma attempts_posts:
  "\<exists>k. posts (snd (callback_attempts app d r as w)) = posts w @ replicate k (callback_url app, d)"
proof (induction as arbitrary: w)
  case Nil
  have "posts (snd (callback_attempts app d r [] w)) = posts w @ replicate 0 (callback_url app, d)"
    by simp
  then show ?case by blast
next
  case (Cons attempt rest)
  let ?w1 = "w\<lparr>posts := posts w @ [(callback_url app, d)]\<rparr>"
  show ?case
  proof (cases "net w (length (posts w))")
    case True
    then have "posts (snd (callback_attempts app d r (attempt # rest) w))
                 = posts w @ replicate 1 (callback_url app, d)"
      by (simp add: Let_def)
    then show ?thesis by blast
  next
    case False
    define w2 where "w2 = (if int attempt < int r - 1 then sleep (2 ^ attempt) ?w1 else ?w1)"
    have p2: "posts w2 = posts w @ [(callback_url app, d)]"
      by (simp add: w2_def sleep_def)
    from Cons.IH [of w2] obtain k where
      "posts (snd (callback_attempts app d r rest w2)) = posts w2 @ replicate k (callback_url app, d)"
      by blast
    with p2 have "posts (snd (callback_attempts app d r rest w2))
                    = posts w @ replicate (Suc k) (callback_url app, d)"
      by simp
    moreover have "callback_attempts app d r (attempt # rest) w = callback_attempts app d r rest w2"
      using False by (simp add: Let_def w2_def)
    ultimately show ?thesis by metis
  qed
qed

lemma send_callback_tokens:
  "\<exists>k. map (cb_token \<circ> snd) (posts (send_callback user queue w))
         = map (cb_token \<circ> snd) (posts w) @ replicate k (token user)"
proof (cases "find (\<lambda>a. app_id a = application_id queue) (applications w)")
  case None
  then have "map (cb_token \<circ> snd) (posts (send_callback user queue w))
         = map (cb_token \<circ> snd) (posts w) @ replicate 0 (token user)"
    by (simp add: send_callback_def)
  then show ?thesis by blast
next
  case (Some app)
  obtain k where k: "posts (snd (callback_attempts app (callback_payload user queue) 3 [0..<3] w))
                   = posts w @ replicate k (callback_url app, callback_payload user queue)"
    using attempts_posts by blast
  have "posts (send_callback user queue w)
          = posts (snd (callback_attempts app (callback_payload user queue) 3 [0..<3] w))"
    using Some by (simp add: send_callback_def Let_def case_prod_beta)
  with k have "map (cb_token \<circ> snd) (posts (send_callback user queue w))
         = map (cb_token \<circ> snd) (posts w) @ replicate k (token user)"
    by (simp add: callback_payload_def)
  then show ?thesis by blast
qed

lemma release_step_tokens:
  "\<exists>k. map (cb_token \<circ> snd) (posts (release_step queue user w))
         = map (cb_token \<circ> snd) (posts w) @ replicate k (token user)"
proof -
  define wt where "wt = whole_seconds (clock w - created_at user)"
  define w1 where "w1 = update_queue_user (qu_id user) (\<lambda>r. r\<lparr>status := ready, wait_time := Some wt\<rparr>) w"
  define user' where "user' = user\<lparr>status := ready, wait_time := Some wt\<rparr>"
  have p1: "posts w1 = posts w" by (simp add: w1_def update_queue_user_def)
  have t: "token user' = token user" by (simp add: user'_def)
  have "posts (release_step queue user w) = posts (send_callback user' queue w1)"
    by (simp add: release_step_def release_user_def Let_def w1_def user'_def wt_def)
  with send_callback_tokens [of user' queue w1] p1 t show ?thesis by simp
qed

lemma release_fold_tokens:
  "\<exists>ks. length ks = length sel
       \<and> map (cb_token \<circ> snd) (posts (fold (release_step queue) sel w))
           = map (cb_token \<circ> snd) (posts w) @ concat (map2 replicate ks (map token sel))"
proof (induction sel arbitrary: w)
  case Nil
  show ?case by simp
next
  case (Cons u us)
  obtain k where k: "map (cb_token \<circ> snd) (posts (release_step queue u w))
         = map (cb_token \<circ> snd) (posts w) @ replicate k (token u)"
    using release_step_tokens by blast
  from Cons.IH [of "release_step queue u w"] obtain ks where
    ks: "length ks = length us"
      "map (cb_token \<circ> snd) (posts (fold (release_step queue) us (release_step queue u w)))
           = map (cb_token \<circ> snd) (posts (release_step queue u w))
               @ concat (map2 replicate ks (map token us))"
    by blast
  have "length (k # ks) = length (u # us)" using ks(1) by simp
  moreover have "map (cb_token \<circ> snd) (posts (fold (release_step queue) (u # us) w))
           = map (cb_token \<circ> snd) (posts w) @ concat (map2 replicate (k # ks) (map token (u # us)))"
    using k ks(2) by simp
  ultimately show ?case by blast
qed

lemma process_queue_tokens:
  "\<exists>ks. length ks = length (waiting_users queue w)
       \<and> map (cb_token \<circ> snd) (posts (snd (process_queue queue w)))
           = map (cb_token \<circ> snd) (posts w)
               @ concat (map2 replicate ks (map token (waiting_users queue w)))"
proof (cases "max_users_per_minute queue < 0 \<or> waiting_users queue w = []")
  case True
  then have "waiting_users queue w = []" by (auto simp: waiting_users_def)
  then show ?thesis by (simp add: process_queue_unfold)
next
  case False
  let ?w1 = "w\<lparr>QUEUE_SIZE := (QUEUE_SIZE w)(q_id queue \<mapsto>
                          int (length (filter (is_waiting_in queue) (queue_users w))))\<rparr>"
  from release_fold_tokens [of "waiting_users queue w" queue ?w1] False
  show ?thesis by (simp add: process_queue_unfold)
qed

section \<open>Terminal states and cancellation\<close>




section \<open>Validation at admission\<close>

text \<open>
  What \<open>join_queue\<close> does check: the key must belong to an application that is not
  soft-deleted, and the queue must be a queue of that application that is not
  soft-deleted. A join answered with a participant therefore names a queue of an
  application holding the presented key.
\<close>

lemma join_queue_checks:
  "((header = None \<or> header = Some []
       \<or> (\<exists>key. header = Some key
              \<and> (\<forall>a \<in> set (applications w). api_key a = key \<longrightarrow> app_is_deleted a)))
      \<longrightarrow> (\<exists>msg. join_queue qid vid header mode tok i w = (Inl (HTTPException 401 msg), w)))
 \<and> (\<forall>key app. header = Some key \<and> key \<noteq> []
        \<and> find (\<lambda>a. api_key a = key \<and> \<not> app_is_deleted a) (applications w) = Some app
        \<and> (\<forall>q \<in> set (queues w). q_id q = qid \<and> application_id q = app_id app \<longrightarrow> q_is_deleted q)
      \<longrightarrow> join_queue qid vid header mode tok i w = (Inl (HTTPException 404 ''Queue not found''), w))
 \<and> (\<forall>r. fst (join_queue qid vid header mode tok i w) = Inr r
      \<longrightarrow> (\<exists>key app queue. header = Some key
             \<and> app \<in> set (applications w) \<and> api_key app = key \<and> \<not> app_is_deleted app
             \<and> queue \<in> set (queues w) \<and> q_id queue = qid
             \<and> application_id queue = app_id app \<and> \<not> q_is_deleted queue
             \<and> r_queue_id r = qid))"
proof (intro conjI impI allI)
  assume "header = None \<or> header = Some []
       \<or> (\<exists>key. header = Some key
              \<and> (\<forall>a \<in> set (applications w). api_key a = key \<longrightarrow> app_is_deleted a))"
  then consider "header = None" | "header = Some []"
    | key where "header = Some key" "key \<noteq> []"
        "find (\<lambda>a. api_key a = key \<and> \<not> app_is_deleted a) (applications w) = None"
    by (cases header) (auto simp: find_None_iff)
  then show "\<exists>msg. join_queue qid vid header mode tok i w = (Inl (HTTPException 401 msg), w)"
    by cases (simp_all add: join_queue_def)
next
  fix key app
  assume h: "header = Some key \<and> key \<noteq> []
        \<and> find (\<lambda>a. api_key a = key \<and> \<not> app_is_deleted a) (applications w) = Some app
        \<and> (\<forall>q \<in> set (queues w). q_id q = qid \<and> application_id q = app_id app \<longrightarrow> q_is_deleted q)"
  then have "find (\<lambda>q. q_id q = qid \<and> application_id q = app_id app \<and> \<not> q_is_deleted q) (queues w) = None"
    by (auto simp: find_None_iff)
  with h show "join_queue qid vid header mode tok i w = (Inl (HTTPException 404 ''Queue not found''), w)"
    by (simp add: join_queue_def)
next
  fix r
  assume ok: "fst (join_queue qid vid header mode tok i w) = Inr r"
  then obtain key where key: "header = Some key" "key \<noteq> []"
    by (cases header) (auto simp: join_queue_def split: if_splits)
  from ok key obtain app where
    app: "find (\<lambda>a. api_key a = key \<and> \<not> app_is_deleted a) (applications w) = Some app"
    by (cases "find (\<lambda>a. api_key a = key \<and> \<not> app_is_deleted a) (applications w)")
       (auto simp: join_queue_def)
  from ok key app obtain queue where
    queue: "find (\<lambda>q. q_id q = qid \<and> application_id q = app_id app \<and> \<not> q_is_deleted q) (queues w)
              = Some queue"
    by (cases "find (\<lambda>q. q_id q = qid \<and> application_id q = app_id app \<and> \<not> q_is_deleted q) (queues w)")
       (auto simp: join_queue_def)
  have "r_queue_id r = q_id queue"
    using ok key app queue
    by (auto simp: join_queue_def Let_def to_response_def split: if_splits)
  with key find_Some_holds [OF app] find_Some_holds [OF queue]
  show "\<exists>key app queue. header = Some key
             \<and> app \<in> set (applications w) \<and> api_key app = key \<and> \<not> app_is_deleted app
             \<and> queue \<in> set (queues w) \<and> q_id queue = qid
             \<and> application_id queue = app_id app \<and> \<not> q_is_deleted queue
             \<and> r_queue_id r = qid"
    by auto
qed

text \<open>
  C2. The property asks for a 401 unless the application is active and not deleted, and
  for a 404 unless the queue is active and not deleted. \<open>authenticate_api_key\<close> and the
  login handler look the application up with \<^verbatim>\<open>is_active=True\<close>, and the worker serves
  active queues only; \<open>join_queue\<close> does its own lookups and leaves \<^verbatim>\<open>is_active\<close> out
  of both. So the key of an inactive application, which \<open>authenticate_api_key\<close>
  refuses, is admitted, and an inactive queue admits a participant whom no scheduler
  cycle will ever release.
\<close>

theorem join_inactive_admitted:
  "authenticate_api_key ''key-1''
     ((sample_world [])\<lparr>applications := [sample_app\<lparr>app_is_active := False\<rparr>]\<rparr>) = None
 \<and> join_queue ''queue-1'' ''visitor-9'' (Some ''key-1'') ''real'' ''token-9'' ''user-9''
     ((sample_world [])\<lparr>applications := [sample_app\<lparr>app_is_active := False\<rparr>]\<rparr>)
   = (Inr (to_response (participant ''9'' 60000000 waiting)),
      (sample_world [])\<lparr>applications := [sample_app\<lparr>app_is_active := False\<rparr>],
                         queue_users := [participant ''9'' 60000000 waiting]\<rparr>)
 \<and> join_queue ''queue-1'' ''visitor-9'' (Some ''key-1'') ''real'' ''token-9'' ''user-9''
     ((sample_world [])\<lparr>queues := [sample_queue\<lparr>q_is_active := False\<rparr>]\<rparr>)
   = (Inr (to_response (participant ''9'' 60000000 waiting)),
      (sample_world [])\<lparr>queues := [sample_queue\<lparr>q_is_active := False\<rparr>],
                         queue_users := [participant ''9'' 60000000 waiting]\<rparr>)
 \<and> process_queues
     ((sample_world [])\<lparr>queues := [sample_queue\<lparr>q_is_active := False\<rparr>],
                        queue_users := [participant ''9'' 60000000 waiting]\<rparr>)
   = (None,
      (sample_world [])\<lparr>queues := [sample_queue\<lparr>q_is_active := False\<rparr>],
                         queue_users := [participant ''9'' 60000000 waiting]\<rparr>)"
proof -
  have a: "authenticate_api_key ''key-1''
     ((sample_world [])\<lparr>applications := [sample_app\<lparr>app_is_active := False\<rparr>]\<rparr>) = None"
    by (simp add: authenticate_api_key_def)
  have b: "join_queue ''queue-1'' ''visitor-9'' (Some ''key-1'') ''real'' ''token-9'' ''user-9''
     ((sample_world [])\<lparr>applications := [sample_app\<lparr>app_is_active := False\<rparr>]\<rparr>)
   = (Inr (to_response (participant ''9'' 60000000 waiting)),
      (sample_world [])\<lparr>applications := [sample_app\<lparr>app_is_active := False\<rparr>],
                         queue_users := [participant ''9'' 60000000 waiting]\<rparr>)"
    by (simp add: join_queue_def sample_world_def sample_app_def sample_queue_def participant_def
          to_response_def Let_def minutes_def)
  have c: "join_queue ''queue-1'' ''visitor-9'' (Some ''key-1'') ''real'' ''token-9'' ''user-9''
     ((sample_world [])\<lparr>queues := [sample_queue\<lparr>q_is_active := False\<rparr>]\<rparr>)
   = (Inr (to_response (participant ''9'' 60000000 waiting)),
      (sample_world [])\<lparr>queues := [sample_queue\<lparr>q_is_active := False\<rparr>],
                         queue_users := [participant ''9'' 60000000 waiting]\<rparr>)"
    by (simp add: join_queue_def sample_world_def sample_app_def sample_queue_def participant_def
          to_response_def Let_def minutes_def)
  have d: "process_queues
     ((sample_world [])\<lparr>queues := [sample_queue\<lparr>q_is_active := False\<rparr>],
                        queue_users := [participant ''9'' 60000000 waiting]\<rparr>)
   = (None,
      (sample_world [])\<lparr>queues := [sample_queue\<lparr>q_is_active := False\<rparr>],
                         queue_users := [participant ''9'' 60000000 waiting]\<rparr>)"
    by (simp add: process_queues_def)
  from a b c d show ?thesis by (intro conjI)
qed

section \<open>Failure of one queue within a cycle\<close>

text \<open>
  C3, as amended. When processing a queue raises, \<open>process_queues\<close> ends there with that
  exception: the queues that follow in the same cycle are not processed, and the
  cycle's expiration sweep is skipped. The loop of \<open>start\<close> catches the exception,
  sleeps 60 seconds and goes on with the next cycle: for any amount of fuel the loop
  has not returned, so no processing error ends it.
\<close>

theorem exception_ends_cycle:
  "(process_each before w = (None, w1) \<and> process_queue queue w1 = (Some e, w2)
      \<longrightarrow> process_each (before @ queue # rest) w = (Some e, w2))
 \<and> (process_queues w = (Some e, w2) \<longrightarrow> worker_cycle w = sleep 60 w2)
 \<and> running (worker_cycle w) = running w
 \<and> start fuel w = None"
proof (intro conjI impI)
  assume "process_each before w = (None, w1) \<and> process_queue queue w1 = (Some e, w2)"
  then show "process_each (before @ queue # rest) w = (Some e, w2)"
    by (simp add: process_each_append)
next
  assume "process_queues w = (Some e, w2)"
  then show "worker_cycle w = sleep 60 w2"
    by (simp add: worker_cycle_def)
next
  show "running (worker_cycle w) = running w"
    by (rule worker_cycle_running)
  show "start fuel w = None"
    by (simp add: start_def start_loop_never_returns)
qed

theorem exception_ends_cycle_witness:
  "process_each ([] @ broken_queue # [sample_queue])
       ((sample_world [participant ''1'' 0 waiting])\<lparr>queues := [broken_queue, sample_queue]\<rparr>)
     = (Some (DataError ''LIMIT must not be negative''),
        (sample_world [participant ''1'' 0 waiting])\<lparr>queues := [broken_queue, sample_queue]\<rparr>)
 \<and> worker_cycle ((sample_world [participant ''1'' 0 waiting])\<lparr>queues := [broken_queue, sample_queue]\<rparr>)
     = sleep 60 ((sample_world [participant ''1'' 0 waiting])\<lparr>queues := [broken_queue, sample_queue]\<rparr>)"
proof -
  let ?w = "(sample_world [participant ''1'' 0 waiting])\<lparr>queues := [broken_queue, sample_queue]\<rparr>"
  let ?e = "DataError ''LIMIT must not be negative''"
  have h: "process_each [] ?w = (None, ?w) \<and> process_queue broken_queue ?w = (Some ?e, ?w)"
    by (simp add: process_queue_unfold broken_queue_fields)
  note a = exception_ends_cycle [where before = "[]" and w = ?w and ?w1.0 = ?w
      and queue = broken_queue and e = ?e and ?w2.0 = ?w and rest = "[sample_queue]",
      THEN conjunct1, THEN mp, OF h]
  note b = exception_ends_cycle [where w = ?w and e = ?e and ?w2.0 = ?w,
      THEN conjunct2, THEN conjunct1, THEN mp, OF broken_cycle]
  from a b show ?thesis by simp
qed

text \<open>
  C3 as stated fails: with a queue whose processing raises ahead of it, the sample queue
  is not processed in that cycle and its participant is still waiting afterwards; alone,
  the sample queue would have released that participant.
\<close>

theorem isolation_counterexample:
  "process_queues ((sample_world [participant ''1'' 0 waiting])\<lparr>queues := [broken_queue, sample_queue]\<rparr>)
     = (Some (DataError ''LIMIT must not be negative''),
        (sample_world [participant ''1'' 0 waiting])\<lparr>queues := [broken_queue, sample_queue]\<rparr>)
 \<and> map status (queue_users (snd (process_queues
       ((sample_world [participant ''1'' 0 waiting])\<lparr>queues := [sample_queue]\<rparr>)))) = [ready]"
proof -
  let ?w = "sample_world [participant ''1'' 0 waiting]"
  have s: "waiting_users sample_queue (?w\<lparr>queues := [sample_queue]\<rparr>) = [participant ''1'' 0 waiting]"
    using sel1 by (simp add: waiting_users_def)
  have "process_queues (?w\<lparr>queues := [sample_queue]\<rparr>)
          = process_queue sample_queue (?w\<lparr>queues := [sample_queue]\<rparr>)"
    by (simp add: process_queues_def sample_queue_fields split: prod.splits option.splits)
  then have "map status (queue_users (snd (process_queues (?w\<lparr>queues := [sample_queue]\<rparr>)))) = [ready]"
    by (simp add: process_queue_unfold s release_step_def Let_def release_user_rows sample_queue_fields
          sample_world_fields participant_fields)
  with broken_cycle [of "[participant ''1'' 0 waiting]"] show ?thesis by simp
qed

section \<open>How a participant leaves the waiting state\<close>

text \<open>
  C4, as amended. A transition out of waiting is a read followed by an unconditional
  write. The scheduler reads participants that are waiting and not deleted, and the
  sweeper reads those that are waiting, overdue and not deleted. The write then goes to
  the row with the participant's primary key and tests no state. \<open>release_user\<close> leaves
  that row ready whatever its state was when the write happened. The sweeper is its
  read followed by the loop over what it read, and that loop, run on any state and any
  list of participants read earlier, leaves expired every row whose key is in the list,
  whatever the row's state has become.
\<close>

theorem transition_is_read_then_write:
  "(store_ok w \<longrightarrow>
      (\<forall>u \<in> set (waiting_users queue w).
          u \<in> set (queue_users w) \<and> status u = waiting \<and> \<not> qu_is_deleted u))
 \<and> queue_users (release_user user queue w)
       = map (\<lambda>r. if qu_id r = qu_id user
                   then r\<lparr>status := ready,
                          wait_time := Some (whole_seconds (clock w - created_at user))\<rparr>
                   else r) (queue_users w)
 \<and> queue_users (cleanup_expired_tokens w)
       = map (\<lambda>r. if qu_id r \<in> qu_id ` {u \<in> set (queue_users w). is_overdue (clock w) u}
                   then r\<lparr>status := expired\<rparr> else r) (queue_users w)
 \<and> cleanup_expired_tokens w
       = fold expire_step (filter (is_overdue (clock w)) (queue_users w)) w
 \<and> (\<forall>u \<in> set (filter (is_overdue (clock w)) (queue_users w)).
        status u = waiting \<and> \<not> qu_is_deleted u)
 \<and> queue_users (expire_step user w)
       = map (\<lambda>r. if qu_id r = qu_id user then r\<lparr>status := expired\<rparr> else r) (queue_users w)
 \<and> queue_users (fold expire_step stale w)
       = map (\<lambda>r. if qu_id r \<in> qu_id ` set stale then r\<lparr>status := expired\<rparr> else r)
           (queue_users w)"
proof (intro conjI impI ballI)
  fix u
  assume "store_ok w" and "u \<in> set (waiting_users queue w)"
  then have "u \<in> {u \<in> set (queue_users w). is_waiting_in queue u}"
    using waiting_users_subset [of w queue] by (auto simp: store_ok_def)
  then show "u \<in> set (queue_users w)" "status u = waiting" "\<not> qu_is_deleted u"
    by (simp_all add: is_waiting_in_def)
next
  show "queue_users (release_user user queue w)
       = map (\<lambda>r. if qu_id r = qu_id user
                   then r\<lparr>status := ready,
                          wait_time := Some (whole_seconds (clock w - created_at user))\<rparr>
                   else r) (queue_users w)"
    by (rule release_user_rows)
  show "queue_users (cleanup_expired_tokens w)
       = map (\<lambda>r. if qu_id r \<in> qu_id ` {u \<in> set (queue_users w). is_overdue (clock w) u}
                   then r\<lparr>status := expired\<rparr> else r) (queue_users w)"
    by (simp add: cleanup_expired_tokens_def Let_def expire_fold_rows)
  show "cleanup_expired_tokens w
       = fold expire_step (filter (is_overdue (clock w)) (queue_users w)) w"
    by (simp add: cleanup_expired_tokens_def Let_def)
  show "queue_users (expire_step user w)
       = map (\<lambda>r. if qu_id r = qu_id user then r\<lparr>status := expired\<rparr> else r) (queue_users w)"
    by (simp add: expire_step_def Let_def update_queue_user_def)
  show "queue_users (fold expire_step stale w)
       = map (\<lambda>r. if qu_id r \<in> qu_id ` set stale then r\<lparr>status := expired\<rparr> else r)
           (queue_users w)"
    by (rule expire_fold_rows)
next
  fix u
  assume "u \<in> set (filter (is_overdue (clock w)) (queue_users w))"
  then have "is_overdue (clock w) u" by simp
  then show "status u = waiting" "\<not> qu_is_deleted u"
    by (simp_all add: is_overdue_def)
qed

theorem transition_is_read_then_write_witness:
  "participant ''1'' 0 waiting
     \<in> set (waiting_users sample_queue (sample_world [participant ''1'' 0 waiting, participant ''2'' 5 waiting]))
 \<and> participant ''1'' 0 waiting
     \<in> set (queue_users (sample_world [participant ''1'' 0 waiting, participant ''2'' 5 waiting]))
 \<and> status (participant ''1'' 0 waiting) = waiting
 \<and> \<not> qu_is_deleted (participant ''1'' 0 waiting)
 \<and> participant ''1'' 0 waiting
     \<in> set (filter (is_overdue (clock ((sample_world [participant ''1'' 0 waiting])\<lparr>clock := minutes 11\<rparr>)))
              (queue_users ((sample_world [participant ''1'' 0 waiting])\<lparr>clock := minutes 11\<rparr>)))
 \<and> map status (queue_users (expire_step (participant ''1'' 0 waiting)
        (sample_world [participant ''1'' 0 ready]))) = [expired]
 \<and> map status (queue_users (fold expire_step [participant ''1'' 0 waiting]
        (sample_world [participant ''1'' 0 ready, participant ''2'' 5 rejected]))) = [expired, rejected]"
proof -
  let ?w = "sample_world [participant ''1'' 0 waiting, participant ''2'' 5 waiting]"
  let ?late = "(sample_world [participant ''1'' 0 waiting])\<lparr>clock := minutes 11\<rparr>"
  let ?u = "participant ''1'' 0 waiting"
  have sel: "?u \<in> set (waiting_users sample_queue ?w)"
    by (simp add: sample_queue_rest)
  have due: "?u \<in> set (filter (is_overdue (clock ?late)) (queue_users ?late))"
    by (simp add: sample_world_fields is_overdue_def participant_fields minutes_def)
  note a = transition_is_read_then_write [of ?w sample_queue, THEN conjunct1, THEN mp,
      OF sample_store_ok, THEN bspec, OF sel]
  note b = transition_is_read_then_write [where w = ?late, THEN conjunct2, THEN conjunct2,
      THEN conjunct2, THEN conjunct2, THEN conjunct1, THEN bspec, OF due]
  note c = transition_is_read_then_write [where w = "sample_world [participant ''1'' 0 ready]"
      and user = ?u, THEN conjunct2, THEN conjunct2, THEN conjunct2, THEN conjunct2,
      THEN conjunct2, THEN conjunct1]
  note d = transition_is_read_then_write
      [where w = "sample_world [participant ''1'' 0 ready, participant ''2'' 5 rejected]"
      and stale = "[?u]", THEN conjunct2, THEN conjunct2, THEN conjunct2, THEN conjunct2,
      THEN conjunct2, THEN conjunct2]
  have c': "map status (queue_users (expire_step ?u (sample_world [participant ''1'' 0 ready])))
              = [expired]"
    unfolding c by (simp add: sample_world_fields participant_fields)
  have d': "map status (queue_users (fold expire_step [?u]
              (sample_world [participant ''1'' 0 ready, participant ''2'' 5 rejected])))
              = [expired, rejected]"
    unfolding d by (simp add: sample_world_fields participant_fields)
  from sel a b due c' d' show ?thesis by simp
qed

text \<open>
  C4 as stated fails: a participant is read as waiting, the sweeper then marks it
  expired, and the write of \<open>release_user\<close> for the participant read earlier still
  commits: the row ends up ready, on top of the expiration.
\<close>

theorem unconditional_write_counterexample:
  "participant ''1'' 0 waiting
     \<in> set (waiting_users sample_queue ((sample_world [participant ''1'' 0 waiting])\<lparr>clock := minutes 11\<rparr>))
 \<and> map status (queue_users (cleanup_expired_tokens
       ((sample_world [participant ''1'' 0 waiting])\<lparr>clock := minutes 11\<rparr>))) = [expired]
 \<and> map status (queue_users (release_user (participant ''1'' 0 waiting) sample_queue
       (cleanup_expired_tokens ((sample_world [participant ''1'' 0 waiting])\<lparr>clock := minutes 11\<rparr>))))
     = [ready]"
proof -
  let ?w = "(sample_world [participant ''1'' 0 waiting])\<lparr>clock := minutes 11\<rparr>"
  have a: "participant ''1'' 0 waiting \<in> set (waiting_users sample_queue ?w)"
    by (simp add: waiting_users_def sample_world_fields sample_queue_fields participant_fields is_waiting_in_def)
  have b: "queue_users (cleanup_expired_tokens ?w) = [participant ''1'' 0 expired]"
    by (simp add: cleanup_expired_tokens_def Let_def sample_world_fields is_overdue_def participant_fields
          minutes_def expire_step_def update_queue_user_def participant_status_update)
  from a b show ?thesis
    by (simp add: release_user_rows participant_fields)
qed

section \<open>The quota of a cycle\<close>

text \<open>
  C6. Let the primary keys be unique and the queue's quota not negative (the data model
  has it positive). Then processing the queue raises nothing, the number of
  participants that were waiting before and are ready after is at most the quota,
  however many are waiting, and so is the increase of \<^verbatim>\<open>USERS_RELEASED\<close>. Over a whole
  scheduler cycle on a well-formed store, in which every active queue is processed
  once, the number of the queue's participants that go from waiting to ready is at most
  its quota too, whether or not the cycle is cut short by an exception.
\<close>

theorem process_queue_quota:
  assumes "distinct (map qu_id (queue_users w))" and "0 \<le> max_users_per_minute queue"
  shows "fst (process_queue queue w) = None
       \<and> int (transitions waiting ready w (snd (process_queue queue w)))
           \<le> max_users_per_minute queue
       \<and> int (USERS_RELEASED (snd (process_queue queue w))) - int (USERS_RELEASED w)
           \<le> max_users_per_minute queue
       \<and> (store_ok w \<and> distinct (map q_id (queues w)) \<and> queue \<in> set (queues w)
            \<longrightarrow> int (released_from queue w (snd (process_queues w)))
                  \<le> max_users_per_minute queue)"
proof -
  let ?sel = "waiting_users queue w"
  let ?w' = "snd (process_queue queue w)"
  have len: "int (length ?sel) \<le> max_users_per_minute queue"
    using length_waiting_users [of queue w] assms(2) by linarith
  have no_exc: "fst (process_queue queue w) = None"
    using assms(2) by (simp add: process_queue_unfold)
  have tr: "int (transitions waiting ready w ?w') \<le> max_users_per_minute queue"
    using process_queue_transitions [OF assms] assms(2) by linarith
  have "USERS_RELEASED ?w' = USERS_RELEASED w + (if ?sel = [] then 0 else length ?sel)"
    using assms(2) by (simp add: process_queue_unfold release_fold_frame)
  then have cnt: "int (USERS_RELEASED ?w') - int (USERS_RELEASED w) \<le> max_users_per_minute queue"
    using len assms(2) by (auto split: if_splits)
  have cyc: "int (released_from queue w (snd (process_queues w))) \<le> max_users_per_minute queue"
    if "store_ok w \<and> distinct (map q_id (queues w)) \<and> queue \<in> set (queues w)"
    using that assms(2) by (intro released_from_cycle) simp_all
  from no_exc tr cnt cyc show ?thesis by blast
qed

theorem process_queue_quota_witness:
  "fst (process_queue sample_queue
          (sample_world [participant ''1'' 0 waiting, participant ''2'' 5 waiting])) = None
 \<and> int (transitions waiting ready
          (sample_world [participant ''1'' 0 waiting, participant ''2'' 5 waiting])
          (snd (process_queue sample_queue
                  (sample_world [participant ''1'' 0 waiting, participant ''2'' 5 waiting])))) \<le> 1
 \<and> int (released_from sample_queue
          (sample_world [participant ''1'' 0 waiting, participant ''2'' 5 waiting])
          (snd (process_queues
                  (sample_world [participant ''1'' 0 waiting, participant ''2'' 5 waiting])))) \<le> 1"
proof -
  let ?w = "sample_world [participant ''1'' 0 waiting, participant ''2'' 5 waiting]"
  have d: "distinct (map qu_id (queue_users ?w))"
    by (simp add: sample_world_fields participant_fields)
  have q: "0 \<le> max_users_per_minute sample_queue"
    by (simp add: sample_queue_fields)
  have c: "store_ok ?w \<and> distinct (map q_id (queues ?w)) \<and> sample_queue \<in> set (queues ?w)"
    by (simp add: sample_store_ok sample_world_fields)
  note a = process_queue_quota [OF d q]
  note b = a [THEN conjunct2, THEN conjunct2, THEN conjunct2, THEN mp, OF c]
  from a b show ?thesis
    by (simp add: sample_queue_fields)
qed

section \<open>The order of release\<close>

text \<open>
  C7, as amended. Let the store hand back exactly the rows that match. The participants
  selected for a queue in a cycle are waiting participants of that queue, listed in
  ascending order of creation timestamp, and no waiting participant left out was
  created before a selected one. They are released in the order of that list: the
  callbacks of the cycle carry the tokens of the selected participants in that order,
  each as many times as it was attempted. Among participants with the same creation
  timestamp the order is the one the store returns them in: the query has no second
  sort key.
\<close>

theorem release_order_fifo:
  assumes "\<forall>rows. mset (row_order w rows) = mset rows"
  shows "sorted (map created_at (waiting_users queue w))
       \<and> set (waiting_users queue w) \<subseteq> {u \<in> set (queue_users w). is_waiting_in queue u}
       \<and> (\<forall>u \<in> set (waiting_users queue w). \<forall>v \<in> set (queue_users w).
             is_waiting_in queue v \<and> v \<notin> set (waiting_users queue w)
               \<longrightarrow> created_at u \<le> created_at v)
       \<and> (\<exists>ks. length ks = length (waiting_users queue w)
              \<and> map (cb_token \<circ> snd) (posts (snd (process_queue queue w)))
                  = map (cb_token \<circ> snd) (posts w)
                      @ concat (map2 replicate ks (map token (waiting_users queue w))))"
proof -
  let ?n = "nat (max_users_per_minute queue)"
  let ?ys = "sort_key created_at (row_order w (filter (is_waiting_in queue) (queue_users w)))"
  have sel: "waiting_users queue w = take ?n ?ys" by (simp add: waiting_users_def)
  have s: "sorted (map created_at ?ys)" by (rule sorted_sort_key)
  have "map created_at ?ys = map created_at (take ?n ?ys) @ map created_at (drop ?n ?ys)"
    by (metis append_take_drop_id map_append)
  with s have sp: "sorted (map created_at (take ?n ?ys) @ map created_at (drop ?n ?ys))"
    by simp
  then have a: "sorted (map created_at (take ?n ?ys))"
    and b: "\<forall>x \<in> set (take ?n ?ys). \<forall>y \<in> set (drop ?n ?ys). created_at x \<le> created_at y"
    by (auto simp: sorted_append)
  have c: "v \<in> set (drop ?n ?ys)"
    if "v \<in> set (queue_users w)" "is_waiting_in queue v" "v \<notin> set (take ?n ?ys)" for v
  proof -
    have "v \<in> set ?ys" using that candidates_set [OF assms, of queue] by simp
    then have "v \<in> set (take ?n ?ys) \<union> set (drop ?n ?ys)"
      by (metis append_take_drop_id set_append)
    with that(3) show ?thesis by simp
  qed
  from a b c waiting_users_subset [OF assms, of queue]
  have "sorted (map created_at (waiting_users queue w))
       \<and> set (waiting_users queue w) \<subseteq> {u \<in> set (queue_users w). is_waiting_in queue u}
       \<and> (\<forall>u \<in> set (waiting_users queue w). \<forall>v \<in> set (queue_users w).
             is_waiting_in queue v \<and> v \<notin> set (waiting_users queue w)
               \<longrightarrow> created_at u \<le> created_at v)"
    unfolding sel by blast
  with process_queue_tokens [of queue w] show ?thesis by blast
qed

theorem release_order_fifo_witness:
  "sorted (map created_at (waiting_users sample_queue
      (sample_world [participant ''1'' 0 waiting, participant ''2'' 5 waiting])))
 \<and> created_at (participant ''1'' 0 waiting) \<le> created_at (participant ''2'' 5 waiting)"
proof -
  let ?w = "sample_world [participant ''1'' 0 waiting, participant ''2'' 5 waiting]"
  have perm: "\<forall>rows. mset (row_order ?w rows) = mset rows"
    by (simp add: sample_world_fields)
  have sel: "waiting_users sample_queue ?w = [participant ''1'' 0 waiting]"
    by (simp add: sample_queue_rest)
  have u: "participant ''1'' 0 waiting \<in> set (waiting_users sample_queue ?w)"
    by (simp add: sel)
  have v: "participant ''2'' 5 waiting \<in> set (queue_users ?w)"
    by (simp add: sample_world_fields)
  have out: "is_waiting_in sample_queue (participant ''2'' 5 waiting)
           \<and> participant ''2'' 5 waiting \<notin> set (waiting_users sample_queue ?w)"
    by (simp add: sel is_waiting_in_def sample_queue_fields participant_fields)
       (simp add: participant_def)
  note a = release_order_fifo [OF perm, of sample_queue, THEN conjunct1]
  note b = release_order_fifo [OF perm, of sample_queue, THEN conjunct2, THEN conjunct2,
      THEN conjunct1, THEN bspec, OF u, THEN bspec, OF v, THEN mp, OF out]
  from a b show ?thesis by simp
qed

text \<open>
  C7 as stated fails in its last part: two stores hold the same two participants, created
  at the same instant, and differ only in the order in which they hand back tied rows.
  With a quota of 1 the first releases one participant and the second the other.
\<close>

theorem tie_order_counterexample:
  "store_ok (sample_world [participant ''1'' 0 waiting, participant ''2'' 0 waiting])
 \<and> store_ok ((sample_world [participant ''1'' 0 waiting, participant ''2'' 0 waiting])
               \<lparr>row_order := rev\<rparr>)
 \<and> waiting_users sample_queue
      (sample_world [participant ''1'' 0 waiting, participant ''2'' 0 waiting])
     = [participant ''1'' 0 waiting]
 \<and> waiting_users sample_queue
      ((sample_world [participant ''1'' 0 waiting, participant ''2'' 0 waiting])\<lparr>row_order := rev\<rparr>)
     = [participant ''2'' 0 waiting]"
proof -
  let ?w = "sample_world [participant ''1'' 0 waiting, participant ''2'' 0 waiting]"
  have "store_ok (?w\<lparr>row_order := rev\<rparr>)"
    by (simp add: store_ok_def sample_world_fields participant_fields)
  moreover have "waiting_users sample_queue (?w\<lparr>row_order := rev\<rparr>) = [participant ''2'' 0 waiting]"
    by (simp add: waiting_users_def sample_world_fields sample_queue_fields participant_fields
          is_waiting_in_def)
  ultimately show ?thesis
    by (simp add: sample_store_ok sample_queue_rest)
qed

section \<open>The waiting-depth gauge\<close>

text \<open>
  C8, as amended. When a queue with a quota that is not negative is processed and at
  least one participant is selected, \<^verbatim>\<open>QUEUE_SIZE\<close> for that queue is set to the number
  of its participants waiting before the releases of that cycle: in a well-formed store,
  the number still waiting afterwards plus the number just released.
\<close>

theorem queue_size_gauge_before_release:
  assumes "0 \<le> max_users_per_minute queue" and "waiting_users queue w \<noteq> []"
  shows "QUEUE_SIZE (snd (process_queue queue w)) (q_id queue)
           = Some (int (length (filter (is_waiting_in queue) (queue_users w))))
       \<and> (store_ok w \<longrightarrow>
            length (filter (is_waiting_in queue) (queue_users w))
              = length (filter (is_waiting_in queue) (queue_users (snd (process_queue queue w))))
                + length (waiting_users queue w))"
proof -
  have "QUEUE_SIZE (snd (process_queue queue w)) (q_id queue)
           = Some (int (length (filter (is_waiting_in queue) (queue_users w))))"
    using assms by (simp add: process_queue_unfold release_fold_frame)
  moreover have "length (filter (is_waiting_in queue) (queue_users w))
              = length (filter (is_waiting_in queue) (queue_users (snd (process_queue queue w))))
                + length (waiting_users queue w)" if "store_ok w"
    using assms waiting_after_release [OF that, of _ queue] by (simp add: process_queue_unfold)
  ultimately show ?thesis by blast
qed

theorem queue_size_gauge_before_release_witness:
  "QUEUE_SIZE (snd (process_queue sample_queue
       (sample_world [participant ''1'' 0 waiting, participant ''2'' 5 waiting]))) ''queue-1'' = Some 2
 \<and> length (filter (is_waiting_in sample_queue) (queue_users (snd (process_queue sample_queue
       (sample_world [participant ''1'' 0 waiting, participant ''2'' 5 waiting]))))) = 1"
proof -
  let ?w = "sample_world [participant ''1'' 0 waiting, participant ''2'' 5 waiting]"
  have q: "0 \<le> max_users_per_minute sample_queue"
    by (simp add: sample_queue_fields)
  have sel: "waiting_users sample_queue ?w = [participant ''1'' 0 waiting]"
    by (simp add: sample_queue_rest)
  then have ne: "waiting_users sample_queue ?w \<noteq> []" by simp
  have n: "length (filter (is_waiting_in sample_queue) (queue_users ?w)) = 2"
    by (simp add: sample_world_fields is_waiting_in_def sample_queue_fields participant_fields)
  note a = queue_size_gauge_before_release [OF q ne, THEN conjunct1]
  note b = queue_size_gauge_before_release [OF q ne, THEN conjunct2, THEN mp, OF sample_store_ok]
  from a b n sel show ?thesis by (simp add: sample_queue_fields)
qed

text \<open>
  C8 as stated fails: after the only waiting participant has been released, no
  participant is waiting and the gauge reads 1.
\<close>

theorem gauge_counterexample:
  "QUEUE_SIZE (snd (process_queue sample_queue (sample_world [participant ''1'' 0 waiting]))) ''queue-1'' = Some 1
 \<and> length (filter (is_waiting_in sample_queue)
      (queue_users (snd (process_queue sample_queue (sample_world [participant ''1'' 0 waiting]))))) = 0"
proof -
  let ?w = "sample_world [participant ''1'' 0 waiting]"
  have q: "max_users_per_minute sample_queue = 1" "q_id sample_queue = ''queue-1''"
    by (simp_all add: sample_queue_def)
  have rows: "queue_users ?w = [participant ''1'' 0 waiting]" by (simp add: sample_world_fields)
  have w: "is_waiting_in sample_queue (participant ''1'' 0 waiting)"
    by (simp add: is_waiting_in_def sample_queue_fields participant_fields)
  have a: "QUEUE_SIZE (snd (process_queue sample_queue ?w)) ''queue-1'' = Some 1"
    by (simp add: process_queue_unfold sel1 q release_step_frame rows w)
  have "queue_users (snd (process_queue sample_queue ?w))
      = [(participant ''1'' 0 waiting)\<lparr>status := ready, wait_time := Some 60\<rparr>]"
    by (simp add: process_queue_unfold sel1 q release_step_def Let_def release_user_rows rows
          sample_world_fields whole_seconds_def participant_fields)
  then have b: "length (filter (is_waiting_in sample_queue) (queue_users (snd (process_queue sample_queue ?w)))) = 0"
    by (simp add: is_waiting_in_def participant_fields)
  from a b show ?thesis by simp
qed

section \<open>Simulation mode\<close>

text \<open>
  C9. Take a request that passes the credential and queue checks of a real join (a real
  join with the same header and queue id is not answered with an HTTP error). In
  simulation mode it is answered with a participant that is ready and carries the
  fabricated token and id, and the state after the call is the state before it: no row
  is written, a scheduler cycle run afterwards does what it would have done before, and,
  the fabricated token being no stored participant's token, a status lookup of it
  answers 404.
\<close>

theorem simulation_join_is_transient:
  assumes "\<forall>code msg. fst (join_queue qid vid header ''real'' tok0 i0 w) \<noteq> Inl (HTTPException code msg)"
  shows "snd (join_queue qid vid header ''simulation'' tok i w) = w
       \<and> (\<exists>r. fst (join_queue qid vid header ''simulation'' tok i w) = Inr r
              \<and> r_status r = ready \<and> r_token r = tok \<and> r_id r = i
              \<and> r_queue_id r = qid \<and> r_visitor_id r = vid)
       \<and> ((\<forall>u \<in> set (queue_users w). token u \<noteq> tok)
            \<longrightarrow> queue_status tok (snd (join_queue qid vid header ''simulation'' tok i w))
                  = Inl (HTTPException 404 ''Token not found''))
       \<and> process_queues (snd (join_queue qid vid header ''simulation'' tok i w)) = process_queues w"
proof -
  from assms obtain key where key: "header = Some key" "key \<noteq> []"
    by (cases header) (auto simp: join_queue_def split: if_splits)
  from assms key obtain app where
    app: "find (\<lambda>a. api_key a = key \<and> \<not> app_is_deleted a) (applications w) = Some app"
    by (cases "find (\<lambda>a. api_key a = key \<and> \<not> app_is_deleted a) (applications w)")
       (auto simp: join_queue_def)
  from assms key app obtain queue where
    queue: "find (\<lambda>q. q_id q = qid \<and> application_id q = app_id app \<and> \<not> q_is_deleted q) (queues w)
              = Some queue"
    by (cases "find (\<lambda>q. q_id q = qid \<and> application_id q = app_id app \<and> \<not> q_is_deleted q) (queues w)")
       (auto simp: join_queue_def)
  have qid: "q_id queue = qid" using find_Some_holds [OF queue] by simp
  have run: "join_queue qid vid header ''simulation'' tok i w =
     (Inr \<lparr>r_id = i, r_queue_id = qid, r_visitor_id = vid, r_status = ready,
           r_token = tok, r_redirect_url = None, r_wait_time = Some 0,
           r_expires_at = Some (clock w + minutes 5), r_created_at = clock w\<rparr>, w)"
    using key app queue qid by (simp add: join_queue_def)
  have "queue_status tok w = Inl (HTTPException 404 ''Token not found'')"
    if "\<forall>u \<in> set (queue_users w). token u \<noteq> tok"
  proof -
    have "find (\<lambda>u. token u = tok \<and> \<not> qu_is_deleted u) (queue_users w) = None"
      using that by (auto simp: find_None_iff)
    then show ?thesis by (simp add: queue_status_def)
  qed
  with run show ?thesis by simp
qed

theorem simulation_join_is_transient_witness:
  "join_queue ''queue-1'' ''visitor-9'' (Some ''key-1'') ''simulation'' ''token-9'' ''user-9''
       (sample_world [participant ''1'' 0 waiting])
     = (Inr \<lparr>r_id = ''user-9'', r_queue_id = ''queue-1'', r_visitor_id = ''visitor-9'',
             r_status = ready, r_token = ''token-9'', r_redirect_url = None,
             r_wait_time = Some 0, r_expires_at = Some 360000000, r_created_at = 60000000\<rparr>,
        sample_world [participant ''1'' 0 waiting])
 \<and> queue_status ''token-9''
      (snd (join_queue ''queue-1'' ''visitor-9'' (Some ''key-1'') ''simulation'' ''token-9'' ''user-9''
              (sample_world [participant ''1'' 0 waiting])))
     = Inl (HTTPException 404 ''Token not found'')"
proof -
  let ?w = "sample_world [participant ''1'' 0 waiting]"
  have real: "\<forall>code msg. fst (join_queue ''queue-1'' ''visitor-9'' (Some ''key-1'') ''real''
                 ''token-8'' ''user-8'' ?w) \<noteq> Inl (HTTPException code msg)"
    by (simp add: join_queue_def Let_def sample_world_fields sample_app_fields sample_queue_fields
          participant_fields)
  have fresh: "\<forall>u \<in> set (queue_users ?w). token u \<noteq> ''token-9''"
    by (simp add: sample_world_fields participant_fields)
  note a = simulation_join_is_transient [OF real, of "''token-9''" "''user-9''",
      THEN conjunct2, THEN conjunct2, THEN conjunct1, THEN mp, OF fresh]
  have "join_queue ''queue-1'' ''visitor-9'' (Some ''key-1'') ''simulation'' ''token-9'' ''user-9'' ?w
     = (Inr \<lparr>r_id = ''user-9'', r_queue_id = ''queue-1'', r_visitor_id = ''visitor-9'',
             r_status = ready, r_token = ''token-9'', r_redirect_url = None,
             r_wait_time = Some 0, r_expires_at = Some 360000000, r_created_at = 60000000\<rparr>, ?w)"
    by (simp add: join_queue_def sample_world_fields sample_app_fields sample_queue_fields minutes_def)
  with a show ?thesis by simp
qed

end
